theory Spec2Isabelle
  imports Complex_Main "HOL-Library.Log_Nat"
begin


section \<open>Dates: the time values behind \<open>Date\<close>\<close>

text \<open>
  \<open>page.tsx\<close> reads the clock with \<open>new Date()\<close>, builds dates with
  \<open>new Date(year, month, day)\<close>, reads them with \<open>getFullYear()\<close> and \<open>getDate()\<close>,
  compares them with \<open><=\<close>, \<open>>=\<close>, \<open><\<close> and subtracts their \<open>getTime()\<close>.
  A \<open>Date\<close> holds a time value, an integer number of milliseconds of at most 8.64e15 in
  magnitude, or is invalid (its time value is \<open>NaN\<close>). The functions below are the ones
  ECMAScript defines on time values (Day, DaysInYear, DayFromYear, YearFromTime,
  InLeapYear, MonthFromTime, DateFromTime, MakeDay, MakeDate, TimeClip), with their names.

  The local time zone is taken to be UTC: local time and time value coincide. In a zone
  with another constant offset the operations the page uses (construction from local
  components, the local getters, comparison, the difference of two \<open>getTime()\<close>) give the
  same results on local times, except that \<open>TimeClip\<close> then bounds the shifted value. A zone
  that changes its clocks is not modelled: there, the difference between two local
  midnights need not be a whole number of days.
\<close>

type_synonym time_value = int

definition msPerDay :: int where
  "msPerDay = 86400000"

definition Day :: "time_value \<Rightarrow> int" where
  "Day t = t div msPerDay"

definition DaysInYear :: "int \<Rightarrow> int" where
  "DaysInYear y =
     (if y mod 4 \<noteq> 0 then 365
      else if y mod 100 \<noteq> 0 then 366
      else if y mod 400 \<noteq> 0 then 365
      else 366)"

definition DayFromYear :: "int \<Rightarrow> int" where
  "DayFromYear y =
     365 * (y - 1970) + (y - 1969) div 4 - (y - 1901) div 100 + (y - 1601) div 400"

text \<open>
  ECMAScript gives \<open>YearFromTime(t)\<close> as the largest year \<open>y\<close> with
  \<open>TimeFromYear(y) \<le> t\<close>. To compute it, \<open>year_down\<close> and \<open>year_up\<close> walk from the
  estimate \<open>1970 + Day(t) div 365\<close> to that year; both walks end because a year has at
  least 365 days (\<open>DayFromYear_Suc\<close>), and \<open>YearFromDay_bounds\<close>, \<open>YearFromDay_unique\<close>
  show that the result is the year of the definition.
\<close>

lemma div_step:
  fixes a n :: int
  assumes "0 < n"
  shows "(a + 1) div n = a div n + (if n dvd a + 1 then 1 else 0)"
proof (cases "n dvd a + 1")
  case True
  then obtain k where k: "a + 1 = n * k" by (auto simp: dvd_def)
  then have a: "a = n * (k - 1) + (n - 1)" by (simp add: algebra_simps)
  have "a div n = k - 1"
    by (rule int_div_pos_eq[OF a]) (use assms in auto)
  moreover have "(a + 1) div n = k" using k assms by simp
  ultimately show ?thesis using True by simp
next
  case False
  have r: "0 \<le> a mod n" "a mod n < n" using assms by auto
  have "a mod n + 1 \<noteq> n"
  proof
    assume h: "a mod n + 1 = n"
    have "a + 1 = n * (a div n) + (a mod n + 1)" by simp
    also have "\<dots> = n * (a div n + 1)" unfolding h by (simp add: algebra_simps)
    finally show False using False by simp
  qed
  then have lt: "a mod n + 1 < n" using r by linarith
  have e: "a + 1 = n * (a div n) + (a mod n + 1)" by simp
  have "(a + 1) div n = a div n"
    by (rule int_div_pos_eq[OF e]) (use r lt in auto)
  then show ?thesis using False by simp
qed

lemma div_step_shift:
  fixes y c n :: int
  assumes "0 < n" "n dvd c"
  shows "(y + 1 - (c + 1)) div n = (y - (c + 1)) div n + (if n dvd y then 1 else 0)"
proof -
  have "n dvd (y - c) \<longleftrightarrow> n dvd y"
    using assms(2) by (simp add: dvd_diff_left_iff)
  moreover have "y - (c + 1) + 1 = y - c" "y + 1 - (c + 1) = y - c" by simp_all
  ultimately show ?thesis
    using div_step[OF assms(1), of "y - (c + 1)"] by simp
qed

lemma DayFromYear_Suc: "DayFromYear (y + 1) = DayFromYear y + DaysInYear y"
proof -
  have a: "(y + 1 - 1969) div 4 = (y - 1969) div 4 + (if 4 dvd y then 1 else 0)"
    using div_step_shift[of 4 1968 y] by simp
  have b: "(y + 1 - 1901) div 100 = (y - 1901) div 100 + (if 100 dvd y then 1 else 0)"
    using div_step_shift[of 100 1900 y] by simp
  have c: "(y + 1 - 1601) div 400 = (y - 1601) div 400 + (if 400 dvd y then 1 else 0)"
    using div_step_shift[of 400 1600 y] by simp
  have d: "400 dvd y \<Longrightarrow> 100 dvd y" "100 dvd y \<Longrightarrow> 4 dvd y"
    by (auto elim: dvd_trans[rotated])
  show ?thesis
    unfolding DayFromYear_def DaysInYear_def a b c
    using d by (auto simp: mod_eq_0_iff_dvd)
qed

lemma DaysInYear_cases: "DaysInYear y = 365 \<or> DaysInYear y = 366"
  by (simp add: DaysInYear_def)

lemma DayFromYear_less_Suc: "DayFromYear y < DayFromYear (y + 1)"
  using DaysInYear_cases[of y] by (auto simp: DayFromYear_Suc)

lemma DayFromYear_pred_less: "DayFromYear (y - 1) < DayFromYear y"
  using DayFromYear_less_Suc[of "y - 1"] by simp

function year_down :: "int \<Rightarrow> int \<Rightarrow> int" where
  "year_down d y = (if d < DayFromYear y then year_down d (y - 1) else y)"
  by pat_completeness auto
termination
proof (relation "measure (\<lambda>(d, y). nat (DayFromYear y - d))")
  show "wf (measure (\<lambda>(d, y). nat (DayFromYear y - d)))" by simp
next
  fix d y :: int
  assume "d < DayFromYear y"
  then show "((d, y - 1), (d, y)) \<in> measure (\<lambda>(d, y). nat (DayFromYear y - d))"
    using DayFromYear_pred_less[of y] by simp
qed

function year_up :: "int \<Rightarrow> int \<Rightarrow> int" where
  "year_up d y = (if DayFromYear (y + 1) \<le> d then year_up d (y + 1) else y)"
  by pat_completeness auto
termination
proof (relation "measure (\<lambda>(d, y). nat (d - DayFromYear y))")
  show "wf (measure (\<lambda>(d, y). nat (d - DayFromYear y)))" by simp
next
  fix d y :: int
  assume "DayFromYear (y + 1) \<le> d"
  then show "((d, y + 1), (d, y)) \<in> measure (\<lambda>(d, y). nat (d - DayFromYear y))"
    using DayFromYear_less_Suc[of y] by simp
qed

declare year_down.simps [simp del] year_up.simps [simp del]

definition YearFromDay :: "int \<Rightarrow> int" where
  "YearFromDay d = year_up d (year_down d (1970 + d div 365))"

definition YearFromTime :: "time_value \<Rightarrow> int" where
  "YearFromTime t = YearFromDay (Day t)"

definition leap :: "int \<Rightarrow> int" where
  "leap y = (if DaysInYear y = 366 then 1 else 0)"

definition InLeapYear :: "time_value \<Rightarrow> int" where
  "InLeapYear t = leap (YearFromTime t)"

definition DayWithinYear :: "time_value \<Rightarrow> int" where
  "DayWithinYear t = Day t - DayFromYear (YearFromTime t)"

definition MonthFromTime :: "time_value \<Rightarrow> int" where
  "MonthFromTime t =
     (let d = DayWithinYear t; l = InLeapYear t in
      if d < 31 then 0
      else if d < 59 + l then 1
      else if d < 90 + l then 2
      else if d < 120 + l then 3
      else if d < 151 + l then 4
      else if d < 181 + l then 5
      else if d < 212 + l then 6
      else if d < 243 + l then 7
      else if d < 273 + l then 8
      else if d < 304 + l then 9
      else if d < 334 + l then 10
      else 11)"

definition DateFromTime :: "time_value \<Rightarrow> int" where
  "DateFromTime t =
     (let d = DayWithinYear t; l = InLeapYear t; m = MonthFromTime t in
      if m = 0 then d + 1
      else if m = 1 then d - 30
      else if m = 2 then d - 58 - l
      else if m = 3 then d - 89 - l
      else if m = 4 then d - 119 - l
      else if m = 5 then d - 150 - l
      else if m = 6 then d - 180 - l
      else if m = 7 then d - 211 - l
      else if m = 8 then d - 242 - l
      else if m = 9 then d - 272 - l
      else if m = 10 then d - 303 - l
      else d - 333 - l)"

text \<open>
  \<open>MakeDay(year, month, date)\<close>: the day number of the first of the month
  \<open>month mod 12\<close> in the year \<open>year + month div 12\<close>, plus \<open>date - 1\<close>. \<open>MonthStart\<close> is the
  day within the year on which a month begins, the table \<open>MonthFromTime\<close> is built on.
\<close>

definition MonthStart :: "int \<Rightarrow> int \<Rightarrow> int" where
  "MonthStart mn l =
     (if mn = 0 then 0
      else if mn = 1 then 31
      else if mn = 2 then 59 + l
      else if mn = 3 then 90 + l
      else if mn = 4 then 120 + l
      else if mn = 5 then 151 + l
      else if mn = 6 then 181 + l
      else if mn = 7 then 212 + l
      else if mn = 8 then 243 + l
      else if mn = 9 then 273 + l
      else if mn = 10 then 304 + l
      else 334 + l)"

definition MakeDay :: "int \<Rightarrow> int \<Rightarrow> int \<Rightarrow> int" where
  "MakeDay year month date =
     (let ym = year + month div 12;
          mn = month mod 12
      in DayFromYear ym + MonthStart mn (leap ym) + date - 1)"

definition MakeDate :: "int \<Rightarrow> int \<Rightarrow> time_value" where
  "MakeDate day time = day * msPerDay + time"

text \<open>
  A \<open>Date\<close> object: \<open>Some\<close> of its time value, or \<open>None\<close> for an invalid date.
  \<open>TimeClip\<close> is where a date becomes invalid: its time would lie more than 8.64e15 ms
  from the epoch.
\<close>

type_synonym Date = "time_value option"

definition TimeClip :: "int \<Rightarrow> Date" where
  "TimeClip time = (if 8640000000000000 < \<bar>time\<bar> then None else Some time)"

text \<open>
  \<open>new Date(year, month, date)\<close>: local midnight of that day. The constructor reads a
  year from 0 to 99 as 1900 + year (\<open>MakeFullYear\<close>).
\<close>

definition MakeFullYear :: "int \<Rightarrow> int" where
  "MakeFullYear year = (if 0 \<le> year \<and> year \<le> 99 then 1900 + year else year)"

definition newDate :: "int \<Rightarrow> int \<Rightarrow> int \<Rightarrow> Date" where
  "newDate year month date = TimeClip (MakeDate (MakeDay (MakeFullYear year) month date) 0)"

text \<open>The getters, on the time value of a valid date.\<close>

definition getFullYear :: "time_value \<Rightarrow> int" where
  "getFullYear t = YearFromTime t"

definition getDate :: "time_value \<Rightarrow> int" where
  "getDate t = DateFromTime t"

text \<open>
  \<open>a <= b\<close> and \<open>a < b\<close> on two dates compare their time values; with an invalid date
  on either side the comparison is false.
\<close>

fun Date_le :: "Date \<Rightarrow> Date \<Rightarrow> bool" where
  "Date_le (Some a) (Some b) = (a \<le> b)"
| "Date_le _ _ = False"

fun Date_lt :: "Date \<Rightarrow> Date \<Rightarrow> bool" where
  "Date_lt (Some a) (Some b) = (a < b)"
| "Date_lt _ _ = False"

section \<open>The challenge window\<close>

text \<open>
  The fields are JavaScript numbers. \<open>daysInMonth\<close> is \<open>end.getDate()\<close>, which is \<open>NaN\<close>
  for an invalid \<open>end\<close>, and \<open>daysLeft\<close> is computed from it: for these two, \<open>None\<close> is
  \<open>NaN\<close>. The other fields are integers on every path.
\<close>

record ChallengeMeta =
  isActive :: bool
  dayOfMonth :: int
  daysLeft :: "int option"
  daysInMonth :: "int option"
  daysUntilStart :: int
  year :: int

text \<open>
  \<open>Math.ceil(x / 86_400_000)\<close> on an integer \<open>x\<close>. The quotient is a double. In
  \<open>getChallengeMeta\<close> it is below 10^6 (\<open>start\<close> is at most some 1900 years after \<open>now\<close>,
  when the constructor reads a two-digit year), where neighbouring doubles are less than
  1/86400000 apart: the quotient of a non-multiple stays above the integer below it, and
  the ceiling of the double is the ceiling of the exact quotient.
\<close>

definition ceil_div :: "int \<Rightarrow> int \<Rightarrow> int" where
  "ceil_div a b = - ((- a) div b)"

text \<open>
  \<open>getChallengeMeta\<close>, with the time value of the clock reading \<open>new Date()\<close> as its
  argument; a clock reading is a valid date. In \<open>daysUntilStart\<close> the difference is taken
  only where \<open>now < start\<close> holds, so \<open>start\<close> is valid there.
\<close>

definition getChallengeMeta :: "time_value \<Rightarrow> ChallengeMeta" where
  "getChallengeMeta now =
     (let thisYearEnd = newDate (getFullYear now) 2 0;
          targetYear =
            (if Date_le (Some now) thisYearEnd then getFullYear now else getFullYear now + 1);
          start = newDate targetYear 1 1;
          end' = newDate targetYear 2 0;
          isActive' = (Date_le start (Some now) \<and> Date_le (Some now) end');
          dayOfMonth' = (if isActive' then getDate now else 0);
          daysInMonth' = map_option getDate end';
          daysLeft' =
            (if isActive' then map_option (\<lambda>d. d - dayOfMonth') daysInMonth'
             else daysInMonth');
          daysUntilStart' =
            (if \<not> isActive' \<and> Date_lt (Some now) start
             then (case start of
                     Some s \<Rightarrow> max 0 (ceil_div (s - now) 86400000)
                   | None \<Rightarrow> 0)
             else 0)
      in \<lparr> isActive = isActive', dayOfMonth = dayOfMonth', daysLeft = daysLeft',
           daysInMonth = daysInMonth', daysUntilStart = daysUntilStart',
           year = targetYear \<rparr>)"

text \<open>
  The year \<open>getChallengeMeta\<close> binds to \<open>targetYear\<close>, named on its own for the
  statements below.
\<close>

definition targetYearOf :: "time_value \<Rightarrow> int" where
  "targetYearOf now =
     (if Date_le (Some now) (newDate (getFullYear now) 2 0) then getFullYear now
      else getFullYear now + 1)"


section \<open>Numbers and strings\<close>

text \<open>
  A JavaScript number is \<open>NaN\<close>, an infinity or a finite double, kept by its exact
  rational value. The sign of zero is not kept (\<open>Fin 0\<close> is both zeros; a zero divisor
  counts as \<open>+0\<close>).
\<close>

datatype jsnum = NaN | NegInf | Fin rat | PosInf

text \<open>
  \<open>Number_value v\<close> is the Number value for the rational \<open>v\<close>: the double nearest to
  it, the one with an even significand of two equally near, an infinity from \<open>2^1024\<close>
  on. With \<open>e\<close> the binary exponent of \<open>v\<close> (\<open>ilog2\<close>, at least \<open>-1022\<close>, where the
  subnormal numbers begin), the doubles around \<open>v\<close> are the multiples of \<open>2^(e - 52)\<close>.
\<close>

function bitLength :: "int \<Rightarrow> int" where
  "bitLength n = (if 0 < n then bitLength (n div 2) + 1 else 0)"
  by pat_completeness auto
termination
  by (relation "measure nat") auto

declare bitLength.simps [simp del]

definition ilog2 :: "rat \<Rightarrow> int" where
  "ilog2 a = (if 1 \<le> a then bitLength \<lfloor>a\<rfloor> - 1 else - bitLength (\<lceil>1 / a\<rceil> - 1))"

definition round_half_even :: "rat \<Rightarrow> int" where
  "round_half_even q =
     (let f = \<lfloor>q\<rfloor>; d = q - of_int f
      in if d < 1 / 2 then f
         else if 1 / 2 < d then f + 1
         else if even f then f else f + 1)"

definition Number_value :: "rat \<Rightarrow> jsnum" where
  "Number_value v =
     (if v = 0 then Fin 0
      else
        (let a = \<bar>v\<bar>;
             e = max (ilog2 a) (- 1022);
             u = 2 powi (e - 52);
             r = of_int (round_half_even (a / u)) * u
         in if 2 ^ 1024 \<le> r then (if v < 0 then NegInf else PosInf)
            else Fin (if v < 0 then - r else r)))"

text \<open>\<open>!x\<close> is \<open>\<not> ToBoolean x\<close>: a number is falsy when it is a zero or \<open>NaN\<close>.\<close>

definition ToBoolean :: "jsnum \<Rightarrow> bool" where
  "ToBoolean n = (n \<noteq> NaN \<and> n \<noteq> Fin 0)"

fun js_lt :: "jsnum \<Rightarrow> jsnum \<Rightarrow> bool" where
  "js_lt NaN _ = False"
| "js_lt _ NaN = False"
| "js_lt PosInf _ = False"
| "js_lt _ NegInf = False"
| "js_lt NegInf _ = True"
| "js_lt _ PosInf = True"
| "js_lt (Fin a) (Fin b) = (a < b)"

fun js_le :: "jsnum \<Rightarrow> jsnum \<Rightarrow> bool" where
  "js_le NaN _ = False"
| "js_le _ NaN = False"
| "js_le NegInf _ = True"
| "js_le _ PosInf = True"
| "js_le PosInf _ = False"
| "js_le _ NegInf = False"
| "js_le (Fin a) (Fin b) = (a \<le> b)"

fun js_neg :: "jsnum \<Rightarrow> jsnum" where
  "js_neg NaN = NaN"
| "js_neg NegInf = PosInf"
| "js_neg PosInf = NegInf"
| "js_neg (Fin a) = Fin (- a)"

text \<open>
  Arithmetic: the exact result of two finite operands is rounded to a double
  (\<open>Number_value\<close>), which is also where a sum or product overflows to an infinity.
\<close>

fun js_add :: "jsnum \<Rightarrow> jsnum \<Rightarrow> jsnum" where
  "js_add NaN _ = NaN"
| "js_add _ NaN = NaN"
| "js_add PosInf NegInf = NaN"
| "js_add NegInf PosInf = NaN"
| "js_add PosInf _ = PosInf"
| "js_add _ PosInf = PosInf"
| "js_add NegInf _ = NegInf"
| "js_add _ NegInf = NegInf"
| "js_add (Fin a) (Fin b) = Number_value (a + b)"

definition js_sub :: "jsnum \<Rightarrow> jsnum \<Rightarrow> jsnum" where
  "js_sub a b = js_add a (js_neg b)"

fun js_sign :: "jsnum \<Rightarrow> int" where
  "js_sign NaN = 0"
| "js_sign NegInf = - 1"
| "js_sign PosInf = 1"
| "js_sign (Fin a) = (if a < 0 then - 1 else if a = 0 then 0 else 1)"

fun js_mul :: "jsnum \<Rightarrow> jsnum \<Rightarrow> jsnum" where
  "js_mul NaN _ = NaN"
| "js_mul _ NaN = NaN"
| "js_mul (Fin a) (Fin b) = Number_value (a * b)"
| "js_mul x y =
     (if js_sign x * js_sign y = 0 then NaN
      else if 0 < js_sign x * js_sign y then PosInf else NegInf)"

fun js_div :: "jsnum \<Rightarrow> jsnum \<Rightarrow> jsnum" where
  "js_div NaN _ = NaN"
| "js_div _ NaN = NaN"
| "js_div (Fin a) (Fin b) =
     (if b = 0 then (if a = 0 then NaN else if 0 < a then PosInf else NegInf)
      else Number_value (a / b))"
| "js_div (Fin a) _ = Fin 0"
| "js_div x (Fin b) = (if 0 < js_sign x * (if b < 0 then - 1 else 1) then PosInf else NegInf)"
| "js_div _ _ = NaN"

text \<open>\<open>Math.max(a, b)\<close>: \<open>NaN\<close> as soon as one argument is.\<close>

definition Math_max :: "jsnum \<Rightarrow> jsnum \<Rightarrow> jsnum" where
  "Math_max a b = (if a = NaN \<or> b = NaN then NaN else if js_lt a b then b else a)"

text \<open>
  \<open>Number(x.toFixed(2))\<close>. \<open>toFixed(2)\<close> prints \<open>NaN\<close> and the infinities by name, and a
  number of magnitude \<open>10^21\<close> or more as \<open>String(x)\<close> does; \<open>Number\<close> reads the same
  number back from these. Below \<open>10^21\<close> it prints the decimal \<open>n / 100\<close> for the integer
  \<open>n\<close> with \<open>n / 100\<close> nearest to the exact value of the magnitude, the larger of two
  equally near (\<open>toFixed2_decimal\<close>), with the sign in front; \<open>Number\<close> then reads that
  decimal back as the double nearest to it.
\<close>

definition toFixed2_decimal :: "rat \<Rightarrow> rat" where
  "toFixed2_decimal a = of_int \<lfloor>100 * a + 1 / 2\<rfloor> / 100"

fun Number_toFixed2 :: "jsnum \<Rightarrow> jsnum" where
  "Number_toFixed2 (Fin x) =
     (let a = \<bar>x\<bar>;
          m = (if 10 ^ 21 \<le> a then Fin a else Number_value (toFixed2_decimal a))
      in if x < 0 then js_neg m else m)"
| "Number_toFixed2 n = n"

text \<open>
  A string is its sequence of UTF-16 code units. \<open>str\<close> turns a literal of this theory
  into one. \<open>trim\<close> is \<open>String.prototype.trim\<close>: it drops the white space and line
  terminators of ECMAScript at both ends.
\<close>

type_synonym jsstring = "nat list"

definition str :: "string \<Rightarrow> jsstring" where
  "str s = map of_char s"

definition isWhiteSpace :: "nat \<Rightarrow> bool" where
  "isWhiteSpace c =
     (c \<in> {9, 10, 11, 12, 13, 32, 160, 5760, 8232, 8233, 8239, 8287, 12288, 65279}
      \<or> (8192 \<le> c \<and> c \<le> 8202))"

definition trim :: "jsstring \<Rightarrow> jsstring" where
  "trim s = rev (dropWhile isWhiteSpace (rev (dropWhile isWhiteSpace s)))"

text \<open>
  \<open>Number(s)\<close> on a string is \<open>StringToNumber\<close>: the trimmed text is empty (0), a binary,
  octal or hexadecimal integer literal, or an optionally signed \<open>Infinity\<close> or decimal
  literal with an optional fraction and exponent; anything else is \<open>NaN\<close>. The value of
  the literal is rounded to a double. (ECMAScript lets an engine drop the digits after the
  20th significant one of a decimal literal before rounding; the engines round the
  literal as written, and so does this function.)
\<close>

definition isDigit :: "nat \<Rightarrow> bool" where
  "isDigit c = (48 \<le> c \<and> c \<le> 57)"

definition digitValue :: "nat \<Rightarrow> nat option" where
  "digitValue c =
     (if 48 \<le> c \<and> c \<le> 57 then Some (c - 48)
      else if 97 \<le> c \<and> c \<le> 102 then Some (c - 87)
      else if 65 \<le> c \<and> c \<le> 70 then Some (c - 55)
      else None)"

fun digitsValue :: "nat \<Rightarrow> jsstring \<Rightarrow> nat \<Rightarrow> nat option" where
  "digitsValue b [] acc = Some acc"
| "digitsValue b (c # cs) acc =
     (case digitValue c of
        None \<Rightarrow> None
      | Some v \<Rightarrow> if v < b then digitsValue b cs (acc * b + v) else None)"

definition parseDigits :: "nat \<Rightarrow> jsstring \<Rightarrow> nat option" where
  "parseDigits b cs = (if cs = [] then None else digitsValue b cs 0)"

definition parseExponent :: "jsstring \<Rightarrow> int option" where
  "parseExponent s =
     (case s of
        [] \<Rightarrow> Some 0
      | e # r \<Rightarrow>
          if e = 101 \<or> e = 69 then
            (case r of
               [] \<Rightarrow> None
             | c # r' \<Rightarrow>
                 if c = 45 then map_option (\<lambda>n. - int n) (parseDigits 10 r')
                 else if c = 43 then map_option int (parseDigits 10 r')
                 else map_option int (parseDigits 10 r))
          else None)"

definition parseUnsignedDecimal :: "jsstring \<Rightarrow> rat option" where
  "parseUnsignedDecimal s =
     (let ip = takeWhile isDigit s;
          r1 = dropWhile isDigit s;
          dot = (r1 \<noteq> [] \<and> hd r1 = 46);
          fp = (if dot then takeWhile isDigit (tl r1) else []);
          r2 = (if dot then dropWhile isDigit (tl r1) else r1)
      in if ip = [] \<and> fp = [] then None
         else
           (case (parseDigits 10 (ip @ fp), parseExponent r2) of
              (Some m, Some e) \<Rightarrow>
                (let k = e - int (length fp)
                 in Some (if 0 \<le> k then of_nat m * 10 ^ nat k else of_nat m / 10 ^ nat (- k)))
            | _ \<Rightarrow> None))"

definition parseNonDecimal :: "nat \<Rightarrow> jsstring \<Rightarrow> jsnum" where
  "parseNonDecimal b cs =
     (case parseDigits b cs of None \<Rightarrow> NaN | Some n \<Rightarrow> Number_value (of_nat n))"

definition StringToNumber :: "jsstring \<Rightarrow> jsnum" where
  "StringToNumber s =
     (let t = trim s in
      if t = [] then Fin 0
      else if take 2 t = str ''0x'' \<or> take 2 t = str ''0X'' then parseNonDecimal 16 (drop 2 t)
      else if take 2 t = str ''0o'' \<or> take 2 t = str ''0O'' then parseNonDecimal 8 (drop 2 t)
      else if take 2 t = str ''0b'' \<or> take 2 t = str ''0B'' then parseNonDecimal 2 (drop 2 t)
      else
        (let neg = (hd t = 45);
             u = (if hd t = 45 \<or> hd t = 43 then tl t else t)
         in if u = str ''Infinity'' then (if neg then NegInf else PosInf)
            else
              (case parseUnsignedDecimal u of
                 None \<Rightarrow> NaN
               | Some v \<Rightarrow> Number_value (if neg then - v else v))))"

section \<open>Entries\<close>

datatype EntryType = essential | skip

record Entry =
  id' :: jsstring
  type' :: EntryType
  amount :: jsnum
  note' :: jsstring
  createdAt :: jsstring

section \<open>Persistence: the two \<open>localStorage\<close> slots\<close>

text \<open>
  \<open>localStorage.getItem\<close> throws (storage blocked), returns \<open>null\<close> (no such key) or
  returns the stored text. \<open>hasWindow\<close> is \<open>typeof window !== "undefined"\<close>.
  \<open>JSON.parse\<close> is a parameter: \<open>None\<close> where it throws, else the value the text
  decodes to, which need not be an array: \<open>loadEntries\<close> returns it unchecked, under the
  type \<open>Entry[]\<close>.
\<close>

datatype json =
  JNull | JBool bool | JNumber jsnum | JString jsstring
  | JArray "json list" | JObject "(jsstring \<times> json) list"

datatype getItem_result = Throws | Null | Stored jsstring

definition loadEntries ::
  "bool \<Rightarrow> (jsstring \<Rightarrow> json option) \<Rightarrow> getItem_result \<Rightarrow> json" where
  "loadEntries hasWindow JSON_parse got =
     (if \<not> hasWindow then JArray []
      else
        (case got of
           Throws \<Rightarrow> JArray []
         | Null \<Rightarrow> JArray []
         | Stored stored \<Rightarrow>
             if stored \<noteq> []
             then (case JSON_parse stored of None \<Rightarrow> JArray [] | Some v \<Rightarrow> v)
             else JArray []))"

definition loadBudget :: "bool \<Rightarrow> getItem_result \<Rightarrow> jsnum" where
  "loadBudget hasWindow got =
     (if \<not> hasWindow then Fin 4500
      else
        (case got of
           Throws \<Rightarrow> Fin 4500
         | Null \<Rightarrow> Fin 4500
         | Stored stored \<Rightarrow> if stored \<noteq> [] then StringToNumber stored else Fin 4500))"

text \<open>
  Writing: \<open>localStorage\<close> is a map from keys to texts. \<open>setItem\<close> may throw (quota);
  \<open>saveEntries\<close> catches that and logs, so the store is as before. \<open>JSON.stringify\<close> is
  a parameter.
\<close>

type_synonym storage = "string \<rightharpoonup> jsstring"

definition STORAGE_KEYS_entries :: string where
  "STORAGE_KEYS_entries = ''februar-challenge-entries''"

definition STORAGE_KEYS_budget :: string where
  "STORAGE_KEYS_budget = ''februar-challenge-budget''"

definition saveEntries ::
  "bool \<Rightarrow> (Entry list \<Rightarrow> jsstring) \<Rightarrow> bool \<Rightarrow> Entry list \<Rightarrow> storage \<Rightarrow> storage" where
  "saveEntries hasWindow JSON_stringify setItemThrows es store =
     (if \<not> hasWindow then store
      else if setItemThrows then store
      else store(STORAGE_KEYS_entries \<mapsto> JSON_stringify es))"

section \<open>The ledger: the state of \<open>Home\<close> and its handlers\<close>

text \<open>
  The two messages \<open>addEntry\<close> puts into \<open>validation\<close>: \<open>InvalidAmount\<close> is the text
  that the amount must be a positive number, \<open>MissingNote\<close> the text asking for a short
  note.
\<close>

datatype ValidationMessage = InvalidAmount | MissingNote

record State =
  budget :: jsnum
  entries :: "Entry list"
  essentialAmount :: jsstring
  essentialNote :: jsstring
  skipAmount :: jsstring
  skipNote :: jsstring
  validation :: "ValidationMessage option"

text \<open>The state \<open>Home\<close> starts in: the initial values of its \<open>useState\<close> calls.\<close>

definition initialState :: State where
  "initialState =
     \<lparr> budget = Fin 4500, entries = [], essentialAmount = [], essentialNote = [],
       skipAmount = [], skipNote = [], validation = None \<rparr>"

text \<open>
  \<open>addEntry(type, amountInput, noteInput)\<close>. \<open>uuid\<close> is what \<open>crypto.randomUUID()\<close>
  returns and \<open>isoNow\<close> what \<open>new Date().toISOString()\<close> returns.
\<close>

definition addEntry ::
  "jsstring \<Rightarrow> jsstring \<Rightarrow> EntryType \<Rightarrow> jsstring \<Rightarrow> jsstring \<Rightarrow> State \<Rightarrow> State" where
  "addEntry uuid isoNow ty amountInput noteInput st =
     (let amount' = StringToNumber amountInput;
          trimmedNote = trim noteInput
      in if \<not> ToBoolean amount' \<or> js_le amount' (Fin 0)
         then st\<lparr>validation := Some InvalidAmount\<rparr>
         else if trimmedNote = []
         then st\<lparr>validation := Some MissingNote\<rparr>
         else
           (let newEntry = \<lparr> id' = uuid, type' = ty, amount = Number_toFixed2 amount',
                              note' = trimmedNote, createdAt = isoNow \<rparr>;
                st' = st\<lparr>entries := newEntry # entries st, validation := None\<rparr>
            in if ty = essential
               then st'\<lparr>essentialAmount := [], essentialNote := []\<rparr>
               else st'\<lparr>skipAmount := [], skipNote := []\<rparr>))"

text \<open>
  \<open>resetMonth\<close>. \<open>confirmed\<close> is the answer of \<open>confirm(...)\<close>; the handler runs in the
  browser, so \<open>saveEntries\<close> sees a window.
\<close>

definition resetMonth ::
  "bool \<Rightarrow> (Entry list \<Rightarrow> jsstring) \<Rightarrow> bool \<Rightarrow> State \<times> storage \<Rightarrow> State \<times> storage" where
  "resetMonth confirmed JSON_stringify setItemThrows ss =
     (if confirmed
      then ((fst ss)\<lparr>entries := [], essentialAmount := [], essentialNote := [],
                     skipAmount := [], skipNote := [], validation := None\<rparr>,
            saveEntries True JSON_stringify setItemThrows [] (snd ss))
      else ss)"

text \<open>
  \<open>setBudget\<close> is the setter of \<open>useState(4500)\<close>; the slider calls it with
  \<open>Number(event.target.value)\<close>.
\<close>

definition setBudget :: "jsnum \<Rightarrow> State \<Rightarrow> State" where
  "setBudget v st = st\<lparr>budget := v\<rparr>"

definition budgetSliderChange :: "jsstring \<Rightarrow> State \<Rightarrow> State" where
  "budgetSliderChange target_value st = setBudget (StringToNumber target_value) st"

section \<open>Totals\<close>

record Totals =
  essentialTotal :: jsnum
  skipTotal :: jsnum
  averageSpend :: jsnum
  dailyAllowance :: jsnum
  budgetDelta :: jsnum
  budgetTargetSoFar :: jsnum
  savedAmount :: jsnum

text \<open>
  A field of \<open>challengeMeta\<close> as a number: the integers there are far below \<open>2^53\<close> and
  so are doubles as they are; \<open>None\<close> is \<open>NaN\<close>.
\<close>

definition num :: "int \<Rightarrow> jsnum" where
  "num k = Fin (of_int k)"

definition num_opt :: "int option \<Rightarrow> jsnum" where
  "num_opt k = (case k of None \<Rightarrow> NaN | Some i \<Rightarrow> num i)"

text \<open>The \<open>useMemo\<close> body computing \<open>totals\<close> from \<open>entries\<close>, \<open>budget\<close>, \<open>challengeMeta\<close>.\<close>

definition totals :: "Entry list \<Rightarrow> jsnum \<Rightarrow> ChallengeMeta \<Rightarrow> Totals" where
  "totals es bud challengeMeta =
     (let essentials = filter (\<lambda>entry. type' entry = essential) es;
          skips = filter (\<lambda>entry. type' entry = skip) es;
          essentialTotal' = foldl (\<lambda>sum entry. js_add sum (amount entry)) (Fin 0) essentials;
          skipTotal' = foldl (\<lambda>sum entry. js_add sum (amount entry)) (Fin 0) skips;
          dailyAllowance' = js_div bud (num_opt (daysInMonth challengeMeta));
          activeDay =
            (if isActive challengeMeta then max (dayOfMonth challengeMeta) 1 else 1);
          averageSpend' =
            (if essentials \<noteq> [] then js_div essentialTotal' (num (max activeDay 1))
             else Fin 0);
          budgetTargetSoFar' =
            (if isActive challengeMeta then js_mul dailyAllowance' (num activeDay) else Fin 0);
          budgetDelta' = js_sub budgetTargetSoFar' essentialTotal';
          savedAmount' = js_add (Math_max (js_sub bud essentialTotal') (Fin 0)) skipTotal'
      in \<lparr> essentialTotal = essentialTotal', skipTotal = skipTotal',
           averageSpend = averageSpend', dailyAllowance = dailyAllowance',
           budgetDelta = budgetDelta', budgetTargetSoFar = budgetTargetSoFar',
           savedAmount = savedAmount' \<rparr>)"

text \<open>A window state and a ledger of two entries, to evaluate the totals on.\<close>

definition exampleMeta :: ChallengeMeta where
  "exampleMeta = \<lparr> isActive = True, dayOfMonth = 10, daysLeft = Some 18, daysInMonth = Some 28,
                    daysUntilStart = 0, year = 2025 \<rparr>"

definition exampleEntries :: "Entry list" where
  "exampleEntries =
     [\<lparr> id' = str ''b'', type' = skip, amount = Fin 300, note' = str ''cafe'',
        createdAt = str ''2025-02-10T12:00:00.000Z'' \<rparr>,
      \<lparr> id' = str ''a'', type' = essential, amount = Fin 2000, note' = str ''rent'',
        createdAt = str ''2025-02-01T09:00:00.000Z'' \<rparr>]"

text \<open>
  A ledger as \<open>loadEntries\<close> can hand it over: the stored text is not checked, and here
  its skip entry has a negative amount.
\<close>

definition loadedEntries :: "Entry list" where
  "loadedEntries =
     [\<lparr> id' = str ''b'', type' = skip, amount = Fin (- 3600), note' = str ''cafe'',
        createdAt = str ''2025-02-10T12:00:00.000Z'' \<rparr>,
      \<lparr> id' = str ''a'', type' = essential, amount = Fin 2000, note' = str ''rent'',
        createdAt = str ''2025-02-01T09:00:00.000Z'' \<rparr>]"

section \<open>The calendar behind the time values\<close>

lemma year_down_le: "DayFromYear (year_down d y) \<le> d"
proof (induction d y rule: year_down.induct)
  case (1 d y)
  show ?case
  proof (cases "d < DayFromYear y")
    case True
    with 1 show ?thesis by (simp del: year_down.simps add: year_down.simps[of d y])
  next
    case False
    then show ?thesis by (simp add: year_down.simps[of d y] del: year_down.simps)
  qed
qed

lemma year_up_bounds:
  "DayFromYear y \<le> d \<Longrightarrow>
   DayFromYear (year_up d y) \<le> d \<and> d < DayFromYear (year_up d y + 1)"
proof (induction d y rule: year_up.induct)
  case (1 d y)
  show ?case
  proof (cases "DayFromYear (y + 1) \<le> d")
    case True
    with 1 show ?thesis by (simp del: year_up.simps add: year_up.simps[of d y])
  next
    case False
    with 1 show ?thesis by (simp add: year_up.simps[of d y] del: year_up.simps)
  qed
qed

lemma YearFromDay_bounds:
  "DayFromYear (YearFromDay d) \<le> d" "d < DayFromYear (YearFromDay d + 1)"
  using year_up_bounds[OF year_down_le, of d "1970 + d div 365"]
  by (simp_all add: YearFromDay_def)

lemma DayFromYear_mono: "y \<le> y' \<Longrightarrow> DayFromYear y \<le> DayFromYear y'"
proof (induction y' rule: int_ge_induct)
  case base
  show ?case by simp
next
  case (step i)
  then show ?case using DayFromYear_less_Suc[of i] by simp
qed

lemma YearFromDay_unique:
  assumes "DayFromYear y \<le> d" "d < DayFromYear (y + 1)"
  shows "YearFromDay d = y"
proof (rule ccontr)
  assume ne: "YearFromDay d \<noteq> y"
  let ?z = "YearFromDay d"
  consider "?z + 1 \<le> y" | "y + 1 \<le> ?z" using ne by linarith
  then show False
  proof cases
    case 1
    from DayFromYear_mono[OF 1] YearFromDay_bounds(2)[of d] assms(1) show False by simp
  next
    case 2
    from DayFromYear_mono[OF 2] YearFromDay_bounds(1)[of d] assms(2) show False by simp
  qed
qed

lemma YearFromDay_within:
  "0 \<le> k \<Longrightarrow> k < DaysInYear y \<Longrightarrow> YearFromDay (DayFromYear y + k) = y"
  by (rule YearFromDay_unique) (simp_all add: DayFromYear_Suc)

lemma Day_MakeDate: "0 \<le> ms \<Longrightarrow> ms < msPerDay \<Longrightarrow> Day (MakeDate d ms) = d"
  by (simp add: Day_def MakeDate_def msPerDay_def)


lemma leap_cases: "leap y = 0 \<or> leap y = 1"
  by (simp add: leap_def)

lemma DaysInYear_leap: "DaysInYear y = 365 + leap y"
  using DaysInYear_cases[of y] by (auto simp: leap_def)

lemma mult_le_iff_le_div:
  fixes d t m :: int
  assumes "0 < m"
  shows "d * m \<le> t \<longleftrightarrow> d \<le> t div m"
proof
  assume "d * m \<le> t"
  then have "(d * m) div m \<le> t div m" using assms by (rule zdiv_mono1)
  then show "d \<le> t div m" using assms by simp
next
  assume "d \<le> t div m"
  then have "d * m \<le> (t div m) * m" using assms by simp
  also have "\<dots> \<le> (t div m) * m + t mod m"
    using pos_mod_sign[OF assms, of t] by linarith
  also have "\<dots> = t" by simp
  finally show "d * m \<le> t" .
qed

lemma MakeDate_le_iff: "MakeDate d 0 \<le> t \<longleftrightarrow> d \<le> Day t"
  using mult_le_iff_le_div[of msPerDay d t] by (simp add: MakeDate_def Day_def msPerDay_def)

lemma le_MakeDate_Day: "t \<le> MakeDate d 0 \<Longrightarrow> Day t \<le> d"
proof -
  assume "t \<le> MakeDate d 0"
  then have "t div msPerDay \<le> (d * msPerDay) div msPerDay"
    unfolding MakeDate_def by (intro zdiv_mono1) (simp_all add: msPerDay_def)
  then show ?thesis by (simp add: Day_def msPerDay_def)
qed

lemma feb_date:
  assumes "Day t = DayFromYear y + k" "31 \<le> k" "k \<le> 58 + leap y"
  shows "YearFromTime t = y" "getDate t = k - 30"
proof -
  have k: "0 \<le> k" "k < DaysInYear y" using assms(2,3) by (simp_all add: DaysInYear_leap)
  show y: "YearFromTime t = y"
    unfolding YearFromTime_def assms(1) by (rule YearFromDay_within[OF k])
  have d: "DayWithinYear t = k" by (simp add: DayWithinYear_def y assms(1))
  have l: "InLeapYear t = leap y" by (simp add: InLeapYear_def y leap_def)
  have m: "MonthFromTime t = 1" using assms(2,3) by (simp add: MonthFromTime_def d l)
  show "getDate t = k - 30" by (simp add: getDate_def DateFromTime_def m d)
qed

lemma MakeDay_feb1: "MakeDay Y 1 1 = DayFromYear Y + 31"
  by (simp add: MakeDay_def MonthStart_def)

lemma MakeDay_febEnd: "MakeDay Y 2 0 = DayFromYear Y + 58 + leap Y"
  by (simp add: MakeDay_def MonthStart_def add.commute)

lemma MakeDay_jan31: "MakeDay Y 0 31 = DayFromYear Y + 30"
  by (simp add: MakeDay_def MonthStart_def)

lemma MakeDay_mar1: "MakeDay Y 2 1 = DayFromYear Y + 59 + leap Y"
  by (simp add: MakeDay_def MonthStart_def add.commute)

lemma MakeFullYear_id: "99 < Y \<Longrightarrow> MakeFullYear Y = Y"
  by (simp add: MakeFullYear_def)

lemma getFullYear_MakeDate:
  assumes "0 \<le> k" "k < DaysInYear Y" "0 \<le> ms" "ms < msPerDay"
  shows "getFullYear (MakeDate (DayFromYear Y + k) ms) = Y"
  unfolding getFullYear_def YearFromTime_def Day_MakeDate[OF assms(3,4)]
  by (rule YearFromDay_within[OF assms(1,2)])

lemma ceil_div_days:
  assumes "0 \<le> ms" "ms < 86400000"
  shows "ceil_div (k * 86400000 - ms) 86400000 = k"
proof -
  have "(ms + (- k) * 86400000) div 86400000 = - k + ms div 86400000"
    by (rule div_mult_self1) simp
  moreover have "ms div 86400000 = 0" using assms by simp
  moreover have "- (k * 86400000 - ms) = ms + (- k) * 86400000" by simp
  ultimately show ?thesis unfolding ceil_div_def by simp
qed


lemma YearFromDay_ge: "DayFromYear Y \<le> d \<Longrightarrow> Y \<le> YearFromDay d"
proof (rule ccontr)
  assume a: "DayFromYear Y \<le> d" and "\<not> Y \<le> YearFromDay d"
  then have "YearFromDay d + 1 \<le> Y" by simp
  from DayFromYear_mono[OF this] YearFromDay_bounds(2)[of d] a show False by simp
qed

lemma YearFromDay_le: "d < DayFromYear (Y + 1) \<Longrightarrow> YearFromDay d \<le> Y"
proof (rule ccontr)
  assume a: "d < DayFromYear (Y + 1)" and "\<not> YearFromDay d \<le> Y"
  then have "Y + 1 \<le> YearFromDay d" by simp
  from DayFromYear_mono[OF this] YearFromDay_bounds(1)[of d] a show False by simp
qed

lemma TimeClip_SomeD: "TimeClip t = Some s \<Longrightarrow> s = t"
  by (simp add: TimeClip_def split: if_splits)

lemma Date_le_SomeD:
  assumes "Date_le a b"
  obtains x y where "a = Some x" "b = Some y" "x \<le> y"
  using assms by (cases a; cases b) simp_all

lemma Date_lt_SomeD:
  assumes "Date_lt a b"
  obtains x y where "a = Some x" "b = Some y" "x < y"
  using assms by (cases a; cases b) simp_all

lemma newDate_feb1:
  "newDate y 1 1 = TimeClip (MakeDate (DayFromYear (MakeFullYear y) + 31) 0)"
  by (simp add: newDate_def MakeDay_feb1)

lemma newDate_febEnd:
  "newDate y 2 0 =
   TimeClip (MakeDate (DayFromYear (MakeFullYear y) + 58 + leap (MakeFullYear y)) 0)"
  by (simp add: newDate_def MakeDay_febEnd)

lemma DayFromYear_275760: "DayFromYear 275760 = 99999744"
  by (simp add: DayFromYear_def)

lemma DayFromYear_275761: "DayFromYear 275761 = 100000110"
  by (simp add: DayFromYear_def)

lemma DayFromYear_m271820: "DayFromYear (- 271820) = - 99999744"
  by (simp add: DayFromYear_def)

lemma DayFromYear_m271821: "DayFromYear (- 271821) = - 100000109"
  by (simp add: DayFromYear_def)

lemma february_in_range:
  assumes "- 271820 \<le> Y" "Y \<le> 275760" "0 \<le> k" "k \<le> 59"
  shows "TimeClip (MakeDate (DayFromYear Y + k) 0) = Some (MakeDate (DayFromYear Y + k) 0)"
proof -
  have lo: "- 99999744 \<le> DayFromYear Y"
    using DayFromYear_mono[OF assms(1)] by (simp add: DayFromYear_m271820)
  have hi: "DayFromYear Y \<le> 99999744"
    using DayFromYear_mono[OF assms(2)] by (simp add: DayFromYear_275760)
  have "\<bar>DayFromYear Y + k\<bar> \<le> 100000000" using lo hi assms(3,4) by simp
  then have "\<bar>DayFromYear Y + k\<bar> * 86400000 \<le> 100000000 * 86400000"
    by (intro mult_right_mono) simp_all
  then have "\<bar>(DayFromYear Y + k) * 86400000\<bar> \<le> 8640000000000000"
    by (simp add: abs_mult)
  then show ?thesis by (simp add: TimeClip_def MakeDate_def msPerDay_def)
qed

lemma MakeFullYear_range:
  "- 271820 \<le> T \<Longrightarrow> T \<le> 275760 \<Longrightarrow>
   - 271820 \<le> MakeFullYear T \<and> MakeFullYear T \<le> 275760"
  by (simp add: MakeFullYear_def)

lemma getFullYear_range:
  assumes "- 8640000000000000 \<le> now" "now \<le> MakeDate (MakeDay 275760 2 0) 0"
  shows "- 271821 \<le> getFullYear now" "getFullYear now \<le> 275760"
proof -
  have "Day (- 8640000000000000) \<le> Day now"
    unfolding Day_def using assms(1) by (intro zdiv_mono1) (simp_all add: msPerDay_def)
  then have "- 100000000 \<le> Day now" by (simp add: Day_def msPerDay_def)
  then have "DayFromYear (- 271821) \<le> Day now" by (simp add: DayFromYear_m271821)
  then show "- 271821 \<le> getFullYear now"
    unfolding getFullYear_def YearFromTime_def by (rule YearFromDay_ge)
  have "Day now \<le> MakeDay 275760 2 0" using assms(2) by (rule le_MakeDate_Day)
  also have "\<dots> \<le> DayFromYear 275760 + 59"
    using leap_cases[of 275760] by (auto simp: MakeDay_febEnd)
  finally have "Day now < DayFromYear (275760 + 1)"
    by (simp add: DayFromYear_275760 DayFromYear_275761)
  then show "getFullYear now \<le> 275760"
    unfolding getFullYear_def YearFromTime_def by (rule YearFromDay_le)
qed

lemma getChallengeMeta_fields:
  "year (getChallengeMeta now) = targetYearOf now"
  "isActive (getChallengeMeta now) \<longleftrightarrow>
     Date_le (newDate (targetYearOf now) 1 1) (Some now) \<and>
     Date_le (Some now) (newDate (targetYearOf now) 2 0)"
  "daysInMonth (getChallengeMeta now) = map_option getDate (newDate (targetYearOf now) 2 0)"
  "dayOfMonth (getChallengeMeta now) =
     (if isActive (getChallengeMeta now) then getDate now else 0)"
  "daysLeft (getChallengeMeta now) =
     (if isActive (getChallengeMeta now)
      then map_option (\<lambda>d. d - dayOfMonth (getChallengeMeta now))
             (daysInMonth (getChallengeMeta now))
      else daysInMonth (getChallengeMeta now))"
  "daysUntilStart (getChallengeMeta now) =
     (if \<not> isActive (getChallengeMeta now) \<and> Date_lt (Some now) (newDate (targetYearOf now) 1 1)
      then (case newDate (targetYearOf now) 1 1 of
              Some s \<Rightarrow> max 0 (ceil_div (s - now) 86400000)
            | None \<Rightarrow> 0)
      else 0)"
  by (simp_all add: getChallengeMeta_def targetYearOf_def Let_def)

lemma getDate_febEnd: "getDate (MakeDate (DayFromYear Y + 58 + leap Y) 0) = 28 + leap Y"
proof -
  let ?t = "MakeDate (DayFromYear Y + 58 + leap Y) 0"
  have "Day ?t = DayFromYear Y + (58 + leap Y)"
    by (simp add: Day_MakeDate msPerDay_def)
  from feb_date(2)[OF this] leap_cases[of Y]
  have "getDate ?t = 58 + leap Y - 30" by auto
  then show ?thesis by simp
qed

lemma getDate_in_february:
  assumes "MakeDate (DayFromYear Y + 31) 0 \<le> now"
    "now \<le> MakeDate (DayFromYear Y + 58 + leap Y) 0"
  shows "1 \<le> getDate now" "getDate now \<le> 28 + leap Y" "getFullYear now = Y"
proof -
  define k where "k = Day now - DayFromYear Y"
  have lo: "DayFromYear Y + 31 \<le> Day now"
    using assms(1) by (simp add: MakeDate_le_iff)
  have hi: "Day now \<le> DayFromYear Y + 58 + leap Y"
    using assms(2) by (rule le_MakeDate_Day)
  have d: "Day now = DayFromYear Y + k" by (simp add: k_def)
  have k: "31 \<le> k" "k \<le> 58 + leap Y" using lo hi by (simp_all add: k_def)
  from feb_date[OF d k] k
  show "1 \<le> getDate now" "getDate now \<le> 28 + leap Y" "getFullYear now = Y"
    by (simp_all add: getFullYear_def)
qed

text \<open>
  Within the range of the hypotheses, the last February day of the target year is a valid
  date.
\<close>

lemma target_february_valid:
  assumes "- 8640000000000000 \<le> now" "now \<le> MakeDate (MakeDay 275760 2 0) 0"
  shows "newDate (targetYearOf now) 2 0 =
         Some (MakeDate (DayFromYear (MakeFullYear (targetYearOf now)) + 58
                 + leap (MakeFullYear (targetYearOf now))) 0)"
proof (cases "Date_le (Some now) (newDate (getFullYear now) 2 0)")
  case True
  then have ty: "targetYearOf now = getFullYear now" by (simp add: targetYearOf_def)
  from True obtain e where e: "newDate (getFullYear now) 2 0 = Some e"
    by (rule Date_le_SomeD)
  then show ?thesis
    unfolding ty using TimeClip_SomeD[of _ e] by (auto simp: newDate_febEnd)
next
  case False
  then have ty: "targetYearOf now = getFullYear now + 1" by (simp add: targetYearOf_def)
  note yr = getFullYear_range[OF assms]
  have "getFullYear now \<noteq> 275760"
  proof
    assume y: "getFullYear now = 275760"
    have "newDate 275760 2 0 = Some (MakeDate (MakeDay 275760 2 0) 0)"
      using february_in_range[of 275760 "58 + leap 275760"] leap_cases[of 275760]
      by (auto simp: newDate_febEnd MakeFullYear_def MakeDay_febEnd add.assoc)
    then show False using False assms(2) by (simp add: y)
  qed
  then have T: "- 271820 \<le> targetYearOf now" "targetYearOf now \<le> 275760"
    using yr by (simp_all add: ty)
  from MakeFullYear_range[OF T]
  have M: "- 271820 \<le> MakeFullYear (targetYearOf now)" "MakeFullYear (targetYearOf now) \<le> 275760"
    by simp_all
  show ?thesis
    using february_in_range[OF M, of "58 + leap (MakeFullYear (targetYearOf now))"]
      leap_cases[of "MakeFullYear (targetYearOf now)"]
    by (auto simp: newDate_febEnd add.assoc)
qed

section \<open>Properties of the challenge window\<close>

text \<open>
  Claim C10, amended. For every instant \<open>now\<close> from the start of the \<open>Date\<close> range
  (-8.64e15 ms) up to the midnight that begins the last day of February 275760, the state
  \<open>getChallengeMeta\<close> returns has \<open>daysInMonth\<close> 28 or 29, \<open>0 \<le> dayOfMonth \<le> daysInMonth\<close>,
  \<open>0 \<le> daysLeft \<le> daysInMonth\<close>, \<open>daysUntilStart \<ge> 0\<close>, and is active exactly when
  \<open>dayOfMonth \<ge> 1\<close>.
\<close>

theorem getChallengeMeta_invariants:
  assumes "- 8640000000000000 \<le> now" "now \<le> MakeDate (MakeDay 275760 2 0) 0"
  shows "\<exists>dim dl.
           daysInMonth (getChallengeMeta now) = Some dim \<and> (dim = 28 \<or> dim = 29) \<and>
           0 \<le> dayOfMonth (getChallengeMeta now) \<and>
           dayOfMonth (getChallengeMeta now) \<le> dim \<and>
           daysLeft (getChallengeMeta now) = Some dl \<and> 0 \<le> dl \<and> dl \<le> dim \<and>
           0 \<le> daysUntilStart (getChallengeMeta now) \<and>
           (isActive (getChallengeMeta now) \<longleftrightarrow> 1 \<le> dayOfMonth (getChallengeMeta now))"
proof -
  let ?m = "getChallengeMeta now"
  let ?M = "MakeFullYear (targetYearOf now)"
  let ?e = "MakeDate (DayFromYear ?M + 58 + leap ?M) 0"
  have e: "newDate (targetYearOf now) 2 0 = Some ?e"
    by (rule target_february_valid[OF assms])
  have dim: "daysInMonth ?m = Some (28 + leap ?M)"
    by (simp add: getChallengeMeta_fields(3) e getDate_febEnd)
  have dus: "0 \<le> daysUntilStart ?m"
    by (simp add: getChallengeMeta_fields(6) split: option.split)
  show ?thesis
  proof (cases "isActive ?m")
    case True
    then have "Date_le (newDate (targetYearOf now) 1 1) (Some now)" "now \<le> ?e"
      by (simp_all add: getChallengeMeta_fields(2) e)
    then obtain s where s: "newDate (targetYearOf now) 1 1 = Some s" "s \<le> now"
      by (auto elim: Date_le_SomeD)
    have "s = MakeDate (DayFromYear ?M + 31) 0"
      using s(1) TimeClip_SomeD[of _ s] by (simp add: newDate_feb1)
    then have w: "MakeDate (DayFromYear ?M + 31) 0 \<le> now" using s(2) by simp
    have dom: "dayOfMonth ?m = getDate now"
      using True by (simp add: getChallengeMeta_fields(4))
    have dl: "daysLeft ?m = Some (28 + leap ?M - getDate now)"
      using True by (simp add: getChallengeMeta_fields(5) dim dom)
    from getDate_in_february(1,2)[OF w \<open>now \<le> ?e\<close>] leap_cases[of ?M] True dus
    show ?thesis unfolding dl dom dim by auto
  next
    case False
    have dom: "dayOfMonth ?m = 0"
      using False by (simp add: getChallengeMeta_fields(4))
    have dl: "daysLeft ?m = Some (28 + leap ?M)"
      using False by (simp add: getChallengeMeta_fields(5) dim)
    from leap_cases[of ?M] False dus
    show ?thesis unfolding dl dom dim by auto
  qed
qed

text \<open>
  At noon on 10 February 2025.
\<close>

theorem getChallengeMeta_invariants_witness:
  "- 8640000000000000 \<le> MakeDate (MakeDay 2025 1 10) (12 * 3600000) \<and>
   MakeDate (MakeDay 2025 1 10) (12 * 3600000) \<le> MakeDate (MakeDay 275760 2 0) 0 \<and>
   (\<exists>dim dl.
      daysInMonth (getChallengeMeta (MakeDate (MakeDay 2025 1 10) (12 * 3600000))) = Some dim \<and>
      (dim = 28 \<or> dim = 29) \<and>
      0 \<le> dayOfMonth (getChallengeMeta (MakeDate (MakeDay 2025 1 10) (12 * 3600000))) \<and>
      dayOfMonth (getChallengeMeta (MakeDate (MakeDay 2025 1 10) (12 * 3600000))) \<le> dim \<and>
      daysLeft (getChallengeMeta (MakeDate (MakeDay 2025 1 10) (12 * 3600000))) = Some dl \<and>
      0 \<le> dl \<and> dl \<le> dim \<and>
      0 \<le> daysUntilStart (getChallengeMeta (MakeDate (MakeDay 2025 1 10) (12 * 3600000))) \<and>
      (isActive (getChallengeMeta (MakeDate (MakeDay 2025 1 10) (12 * 3600000)))
         \<longleftrightarrow> 1 \<le> dayOfMonth (getChallengeMeta (MakeDate (MakeDay 2025 1 10) (12 * 3600000)))))"
proof -
  have lo: "- 8640000000000000 \<le> MakeDate (MakeDay 2025 1 10) (12 * 3600000)"
    by (simp add: MakeDate_def MakeDay_def MonthStart_def DayFromYear_def msPerDay_def)
  have hi: "MakeDate (MakeDay 2025 1 10) (12 * 3600000) \<le> MakeDate (MakeDay 275760 2 0) 0"
    using leap_cases[of 275760]
    by (auto simp: MakeDate_def MakeDay_def MonthStart_def DayFromYear_def msPerDay_def)
  from getChallengeMeta_invariants[OF lo hi] lo hi show ?thesis by blast
qed

text \<open>
  The claim as written is for every instant. The last instant of the \<open>Date\<close> range,
  8.64e15 ms, lies in September 275760; the target year is 275761, whose February is
  beyond the range. \<open>end\<close> is then an invalid date, and \<open>daysInMonth\<close> and \<open>daysLeft\<close>
  are \<open>NaN\<close>.
\<close>

lemma getFullYear_maxTime: "getFullYear 8640000000000000 = 275760"
proof -
  have d: "Day 8640000000000000 = 100000000" by (simp add: Day_def msPerDay_def)
  have "YearFromDay 100000000 = 275760"
    by (rule YearFromDay_unique) (simp_all add: DayFromYear_275760 DayFromYear_275761)
  then show ?thesis by (simp add: getFullYear_def YearFromTime_def d)
qed

theorem getChallengeMeta_maxTime_counterexample:
  "TimeClip 8640000000000000 = Some 8640000000000000 \<and>
   daysInMonth (getChallengeMeta 8640000000000000) = None \<and>
   daysLeft (getChallengeMeta 8640000000000000) = None"
proof -
  have l0: "leap 275760 = 1" "leap 275761 = 0" by (simp_all add: leap_def DaysInYear_def)
  have e0: "newDate 275760 2 0 = Some 8639982979200000"
    by (simp add: newDate_febEnd MakeFullYear_def DayFromYear_275760 l0 MakeDate_def
        msPerDay_def TimeClip_def)
  have ty: "targetYearOf 8640000000000000 = 275761"
    by (simp add: targetYearOf_def getFullYear_maxTime e0)
  have e1: "newDate 275761 2 0 = None"
    by (simp add: newDate_febEnd MakeFullYear_def DayFromYear_275761 l0 MakeDate_def
        msPerDay_def TimeClip_def)
  have dim: "daysInMonth (getChallengeMeta 8640000000000000) = None"
    by (simp add: getChallengeMeta_fields(3) ty e1)
  have act: "\<not> isActive (getChallengeMeta 8640000000000000)"
    by (simp add: getChallengeMeta_fields(2) ty e1)
  have dl: "daysLeft (getChallengeMeta 8640000000000000) = None"
    using act by (simp add: getChallengeMeta_fields(5) dim)
  show ?thesis using dim dl by (simp add: TimeClip_def)
qed

text \<open>
  Where the window is active: for an instant in a year from 100 on (below, the \<open>Date\<close>
  constructor reads the year as 1900 + year), exactly from the midnight that begins
  1 February to the midnight that begins the last day of February of that year.
\<close>

lemma isActive_iff:
  assumes "99 < getFullYear now" "getFullYear now \<le> 275760"
  shows "isActive (getChallengeMeta now) \<longleftrightarrow>
         MakeDate (MakeDay (getFullYear now) 1 1) 0 \<le> now \<and>
         now \<le> MakeDate (MakeDay (getFullYear now) 2 0) 0"
proof -
  let ?y = "getFullYear now"
  have fy: "MakeFullYear ?y = ?y" using assms(1) by (rule MakeFullYear_id)
  have r: "- 271820 \<le> ?y" using assms(1) by simp
  have s: "newDate ?y 1 1 = Some (MakeDate (MakeDay ?y 1 1) 0)"
    using february_in_range[OF r assms(2), of 31] by (simp add: newDate_feb1 fy MakeDay_feb1)
  have e: "newDate ?y 2 0 = Some (MakeDate (MakeDay ?y 2 0) 0)"
    using february_in_range[OF r assms(2), of "58 + leap ?y"] leap_cases[of ?y]
    by (auto simp: newDate_febEnd fy MakeDay_febEnd add.assoc)
  show ?thesis
  proof (cases "now \<le> MakeDate (MakeDay ?y 2 0) 0")
    case True
    then have ty: "targetYearOf now = ?y" by (simp add: targetYearOf_def e)
    show ?thesis using True by (simp add: getChallengeMeta_fields(2) ty s e)
  next
    case False
    then have ty: "targetYearOf now = ?y + 1" by (simp add: targetYearOf_def e)
    have fy1: "MakeFullYear (?y + 1) = ?y + 1" using assms(1) by (simp add: MakeFullYear_def)
    have "Day now < DayFromYear (?y + 1)"
      using YearFromDay_bounds(2)[of "Day now"] by (simp add: getFullYear_def YearFromTime_def)
    then have "\<not> DayFromYear (?y + 1) + 31 \<le> Day now" by simp
    then have n: "\<not> MakeDate (DayFromYear (?y + 1) + 31) 0 \<le> now"
      by (simp add: MakeDate_le_iff)
    have "\<not> Date_le (newDate (?y + 1) 1 1) (Some now)"
    proof
      assume "Date_le (newDate (?y + 1) 1 1) (Some now)"
      then obtain x where x: "newDate (?y + 1) 1 1 = Some x" "x \<le> now"
        by (auto elim: Date_le_SomeD)
      from x(1) have "x = MakeDate (DayFromYear (?y + 1) + 31) 0"
        using TimeClip_SomeD[of _ x] by (simp add: newDate_feb1 fy1)
      with x(2) n show False by simp
    qed
    then have "\<not> isActive (getChallengeMeta now)"
      by (simp add: getChallengeMeta_fields(2) ty)
    then show ?thesis using False by simp
  qed
qed

text \<open>
  So the last day of February is cut off after its first millisecond: \<open>new Date(y, 2, 0)\<close>
  is the midnight that begins it.
\<close>

lemma last_february_day_core:
  assumes "99 < Y" "0 < ms" "ms < msPerDay"
  shows "getFullYear (MakeDate (MakeDay Y 2 0) ms) = Y"
    and "getDate (MakeDate (MakeDay Y 2 0) ms) = 28 + leap Y"
    and "targetYearOf (MakeDate (MakeDay Y 2 0) ms) = Y + 1"
    and "\<not> isActive (getChallengeMeta (MakeDate (MakeDay Y 2 0) ms))"
proof -
  let ?D = "DayFromYear Y + 58 + leap Y"
  let ?now = "MakeDate (MakeDay Y 2 0) ms"
  have ms: "0 \<le> ms" "ms < msPerDay" using assms by simp_all
  have now: "?now = MakeDate ?D ms" by (simp add: MakeDay_febEnd)
  have day: "Day ?now = DayFromYear Y + (58 + leap Y)"
    unfolding now using Day_MakeDate[OF ms] by (simp add: add.assoc)
  have k: "31 \<le> 58 + leap Y" "58 + leap Y \<le> 58 + leap Y"
    using leap_cases[of Y] by auto
  show y: "getFullYear ?now = Y"
    using feb_date(1)[OF day k] by (simp add: getFullYear_def)
  show "getDate ?now = 28 + leap Y"
    using feb_date(2)[OF day k] by simp
  have fy: "MakeFullYear Y = Y" using assms(1) by (rule MakeFullYear_id)
  have fy1: "MakeFullYear (Y + 1) = Y + 1" using assms(1) by (simp add: MakeFullYear_def)
  have "\<not> Date_le (Some ?now) (newDate Y 2 0)"
  proof
    assume "Date_le (Some ?now) (newDate Y 2 0)"
    then obtain e where e: "newDate Y 2 0 = Some e" "?now \<le> e"
      by (auto elim: Date_le_SomeD)
    from e(1) have "e = MakeDate ?D 0"
      using TimeClip_SomeD[of _ e] by (simp add: newDate_febEnd fy)
    with e(2) assms(2) show False by (simp add: MakeDay_febEnd MakeDate_def)
  qed
  then show ty: "targetYearOf ?now = Y + 1"
    by (simp add: targetYearOf_def y)
  have "\<not> Date_le (newDate (Y + 1) 1 1) (Some ?now)"
  proof
    assume "Date_le (newDate (Y + 1) 1 1) (Some ?now)"
    then obtain s where s: "newDate (Y + 1) 1 1 = Some s" "s \<le> ?now"
      by (auto elim: Date_le_SomeD)
    from s(1) have "s = MakeDate (?D + 338) 0"
      using TimeClip_SomeD[of _ s]
      by (simp add: newDate_feb1 fy1 DayFromYear_Suc DaysInYear_leap)
    with s(2) ms show False by (simp add: MakeDay_febEnd MakeDate_def msPerDay_def)
  qed
  then show "\<not> isActive (getChallengeMeta ?now)"
    by (simp add: getChallengeMeta_fields(2) ty)
qed

text \<open>
  Claim C1 says that every instant of a calendar day from 1 February to the last day of
  February, at whatever time of day, is active. The code differs on the last day: for
  every year \<open>Y\<close> from 100 on and every time of day after 00:00:00.000, the instant is in
  year \<open>Y\<close>, its day of the month is the last of February (28 or 29), and
  \<open>getChallengeMeta\<close> returns \<open>isActive = false\<close>.
\<close>

theorem last_february_day_not_active:
  assumes "99 < Y" "0 < ms" "ms < msPerDay"
  shows "getFullYear (MakeDate (MakeDay Y 2 0) ms) = Y \<and>
         getDate (MakeDate (MakeDay Y 2 0) ms) = 28 + leap Y \<and>
         isActive (getChallengeMeta (MakeDate (MakeDay Y 2 0) ms)) = False"
  using last_february_day_core[OF assms] by simp

text \<open>
  At noon on 28 February 2025.
\<close>

theorem last_february_day_not_active_witness:
  "getFullYear (MakeDate (MakeDay 2025 2 0) (12 * 3600000)) = 2025 \<and>
   getDate (MakeDate (MakeDay 2025 2 0) (12 * 3600000)) = 28 \<and>
   isActive (getChallengeMeta (MakeDate (MakeDay 2025 2 0) (12 * 3600000))) = False"
  using last_february_day_not_active[of 2025 "12 * 3600000"]
  by (simp add: msPerDay_def leap_def DaysInYear_def)

text \<open>
  Claim C8 says that for an instant in year \<open>Y\<close> the target year is \<open>Y\<close> up to and
  including the last calendar day of February. The code differs on that day: for every
  year \<open>Y\<close> from 100 on and every time of day after 00:00:00.000 of the last day of
  February, the instant is in year \<open>Y\<close> and the target year is \<open>Y + 1\<close>.
\<close>

theorem last_february_day_target_year:
  assumes "99 < Y" "0 < ms" "ms < msPerDay"
  shows "getFullYear (MakeDate (MakeDay Y 2 0) ms) = Y \<and>
         year (getChallengeMeta (MakeDate (MakeDay Y 2 0) ms)) = Y + 1"
  using last_february_day_core[OF assms] by (simp add: getChallengeMeta_fields(1))

text \<open>
  One millisecond into 29 February 2024.
\<close>

theorem last_february_day_target_year_witness:
  "getFullYear (MakeDate (MakeDay 2024 2 0) 1) = 2024 \<and>
   year (getChallengeMeta (MakeDate (MakeDay 2024 2 0) 1)) = 2025"
  using last_february_day_target_year[of 2024 1]
  by (simp add: msPerDay_def)

text \<open>
  On those instants the page already shows the window of the next year, 338 days away.
\<close>

lemma last_february_day:
  assumes "99 < Y" "Y < 275760" "0 < ms" "ms < msPerDay"
  shows "getChallengeMeta (MakeDate (MakeDay Y 2 0) ms) =
         \<lparr> isActive = False, dayOfMonth = 0, daysLeft = Some (28 + leap (Y + 1)),
           daysInMonth = Some (28 + leap (Y + 1)), daysUntilStart = 338, year = Y + 1 \<rparr>"
proof -
  let ?D = "DayFromYear Y + 58 + leap Y"
  let ?now = "MakeDate (MakeDay Y 2 0) ms"
  have ms: "0 \<le> ms" "ms < msPerDay" using assms by simp_all
  note core = last_february_day_core[OF assms(1,3,4)]
  have now: "?now = MakeDate ?D ms" by (simp add: MakeDay_febEnd)
  have fy1: "MakeFullYear (Y + 1) = Y + 1" using assms(1) by (simp add: MakeFullYear_def)
  have r: "- 271820 \<le> Y + 1" "Y + 1 \<le> 275760" using assms(1,2) by simp_all
  define S where "S = MakeDate (?D + 338) 0"
  have start: "newDate (Y + 1) 1 1 = Some S"
    using february_in_range[OF r, of 31]
    by (simp add: S_def newDate_feb1 fy1 DayFromYear_Suc DaysInYear_leap)
  have e: "newDate (Y + 1) 2 0 = Some (MakeDate (DayFromYear (Y + 1) + 58 + leap (Y + 1)) 0)"
    using february_in_range[OF r, of "58 + leap (Y + 1)"] leap_cases[of "Y + 1"]
    by (auto simp: newDate_febEnd fy1 add.assoc)
  have lt: "?now < S"
    unfolding now S_def using ms by (simp add: MakeDate_def msPerDay_def)
  have diff: "S - ?now = 338 * 86400000 - ms"
    unfolding now S_def by (simp add: MakeDate_def msPerDay_def algebra_simps)
  have cd: "ceil_div (S - ?now) 86400000 = 338"
    unfolding diff using ceil_div_days[of ms 338] ms by (simp add: msPerDay_def)
  have act: "\<not> isActive (getChallengeMeta ?now)" by (rule core(4))
  have dim: "daysInMonth (getChallengeMeta ?now) = Some (28 + leap (Y + 1))"
    by (simp add: getChallengeMeta_fields(3) core(3) e getDate_febEnd)
  have dus: "daysUntilStart (getChallengeMeta ?now) = 338"
    using act lt by (simp add: getChallengeMeta_fields(6) core(3) start cd)
  have dom: "dayOfMonth (getChallengeMeta ?now) = 0"
    using act by (simp add: getChallengeMeta_fields(4))
  have dl: "daysLeft (getChallengeMeta ?now) = Some (28 + leap (Y + 1))"
    using act dim by (simp add: getChallengeMeta_fields(5))
  have yr: "year (getChallengeMeta ?now) = Y + 1"
    by (simp add: getChallengeMeta_fields(1) core(3))
  show ?thesis
    using act dim dus dom dl yr by (cases "getChallengeMeta ?now") simp
qed

text \<open>
  The two boundary days Claim C8 names behave as it says: on 31 January of year \<open>Y\<close>, at
  any time of day, the target year is \<open>Y\<close>, the window is not active and starts in 1
  day; on 1 March the target year is \<open>Y + 1\<close> and the window is not active.
\<close>

lemma january_31:
  assumes "99 < Y" "Y \<le> 275760" "0 \<le> ms" "ms < msPerDay"
  shows "getChallengeMeta (MakeDate (MakeDay Y 0 31) ms) =
         \<lparr> isActive = False, dayOfMonth = 0, daysLeft = Some (28 + leap Y),
           daysInMonth = Some (28 + leap Y), daysUntilStart = 1, year = Y \<rparr>"
proof -
  let ?now = "MakeDate (MakeDay Y 0 31) ms"
  have now: "?now = MakeDate (DayFromYear Y + 30) ms" by (simp add: MakeDay_jan31)
  have fy: "MakeFullYear Y = Y" using assms(1) by (rule MakeFullYear_id)
  have r: "- 271820 \<le> Y" using assms(1) by simp
  define S where "S = MakeDate (DayFromYear Y + 31) 0"
  have start: "newDate Y 1 1 = Some S"
    using february_in_range[OF r assms(2), of 31] by (simp add: S_def newDate_feb1 fy)
  have e: "newDate Y 2 0 = Some (MakeDate (DayFromYear Y + 58 + leap Y) 0)"
    using february_in_range[OF r assms(2), of "58 + leap Y"] leap_cases[of Y]
    by (auto simp: newDate_febEnd fy add.assoc)
  have y: "getFullYear ?now = Y"
    unfolding now using assms(3,4) leap_cases[of Y]
    by (intro getFullYear_MakeDate) (auto simp: DaysInYear_leap)
  have "?now \<le> MakeDate (DayFromYear Y + 58 + leap Y) 0"
    using assms leap_cases[of Y]
    by (auto simp: MakeDay_jan31 MakeDate_def msPerDay_def)
  then have ty: "targetYearOf ?now = Y" by (simp add: targetYearOf_def y e)
  have lt: "?now < S"
    using assms by (simp add: S_def MakeDay_jan31 MakeDate_def msPerDay_def)
  have diff: "S - ?now = 1 * 86400000 - ms"
    by (simp add: S_def MakeDay_jan31 MakeDate_def msPerDay_def algebra_simps)
  have cd: "ceil_div (S - ?now) 86400000 = 1"
    unfolding diff using ceil_div_days[of ms 1] assms(3,4) by (simp add: msPerDay_def)
  have act: "\<not> isActive (getChallengeMeta ?now)"
    using lt by (simp add: getChallengeMeta_fields(2) ty start)
  have dim: "daysInMonth (getChallengeMeta ?now) = Some (28 + leap Y)"
    by (simp add: getChallengeMeta_fields(3) ty e getDate_febEnd)
  have dus: "daysUntilStart (getChallengeMeta ?now) = 1"
    using act lt by (simp add: getChallengeMeta_fields(6) ty start cd)
  have dom: "dayOfMonth (getChallengeMeta ?now) = 0"
    using act by (simp add: getChallengeMeta_fields(4))
  have dl: "daysLeft (getChallengeMeta ?now) = Some (28 + leap Y)"
    using act dim by (simp add: getChallengeMeta_fields(5))
  have yr: "year (getChallengeMeta ?now) = Y"
    by (simp add: getChallengeMeta_fields(1) ty)
  show ?thesis
    using act dim dus dom dl yr by (cases "getChallengeMeta ?now") simp
qed

lemma march_1:
  assumes "99 < Y" "0 \<le> ms" "ms < msPerDay"
  shows "year (getChallengeMeta (MakeDate (MakeDay Y 2 1) ms)) = Y + 1"
    and "isActive (getChallengeMeta (MakeDate (MakeDay Y 2 1) ms)) = False"
proof -
  let ?now = "MakeDate (MakeDay Y 2 1) ms"
  have now: "?now = MakeDate (DayFromYear Y + (59 + leap Y)) ms"
    by (simp add: MakeDay_mar1 add.assoc)
  have fy: "MakeFullYear Y = Y" using assms(1) by (rule MakeFullYear_id)
  have fy1: "MakeFullYear (Y + 1) = Y + 1" using assms(1) by (simp add: MakeFullYear_def)
  have y: "getFullYear ?now = Y"
    unfolding now using assms(2,3) leap_cases[of Y]
    by (intro getFullYear_MakeDate) (auto simp: DaysInYear_leap)
  have "\<not> Date_le (Some ?now) (newDate Y 2 0)"
  proof
    assume "Date_le (Some ?now) (newDate Y 2 0)"
    then obtain e where e: "newDate Y 2 0 = Some e" "?now \<le> e"
      by (auto elim: Date_le_SomeD)
    from e(1) have "e = MakeDate (DayFromYear Y + 58 + leap Y) 0"
      using TimeClip_SomeD[of _ e] by (simp add: newDate_febEnd fy)
    with e(2) assms(2) show False by (simp add: MakeDay_mar1 MakeDate_def msPerDay_def)
  qed
  then have ty: "targetYearOf ?now = Y + 1" by (simp add: targetYearOf_def y)
  have "\<not> Date_le (newDate (Y + 1) 1 1) (Some ?now)"
  proof
    assume "Date_le (newDate (Y + 1) 1 1) (Some ?now)"
    then obtain s where s: "newDate (Y + 1) 1 1 = Some s" "s \<le> ?now"
      by (auto elim: Date_le_SomeD)
    from s(1) have "s = MakeDate (DayFromYear Y + 365 + leap Y + 31) 0"
      using TimeClip_SomeD[of _ s]
      by (simp add: newDate_feb1 fy1 DayFromYear_Suc DaysInYear_leap add.assoc)
    with s(2) assms(3) show False
      by (simp add: MakeDay_mar1 MakeDate_def msPerDay_def)
  qed
  then show "isActive (getChallengeMeta ?now) = False"
    by (simp add: getChallengeMeta_fields(2) ty)
  show "year (getChallengeMeta ?now) = Y + 1"
    by (simp add: getChallengeMeta_fields(1) ty)
qed

text \<open>
  \<open>daysInMonth\<close> in a leap year and in a common year.
\<close>

lemma leap_year_examples:
  "daysInMonth (getChallengeMeta (MakeDate (MakeDay 2024 1 10) 0)) = Some 29"
  "daysInMonth (getChallengeMeta (MakeDate (MakeDay 2025 1 10) 0)) = Some 28"
  by code_simp+

section \<open>Doubles\<close>

lemma bitLength_bitlen: "bitLength n = bitlen n"
proof (induction n rule: bitLength.induct)
  case (1 n)
  show ?case
  proof (cases "0 < n")
    case True
    with 1 show ?thesis
      by (simp add: bitLength.simps[of n] compute_bitlen[of n])
  next
    case False
    then show ?thesis by (simp add: bitLength.simps[of n] compute_bitlen[of n])
  qed
qed

lemma bitLength_bounds:
  assumes "0 < n"
  shows "2 ^ nat (bitLength n - 1) \<le> n" "n < 2 ^ nat (bitLength n)" "1 \<le> bitLength n"
proof -
  show "2 ^ nat (bitLength n - 1) \<le> n" "n < 2 ^ nat (bitLength n)"
    using bitlen_bounds[OF assms] by (simp_all add: bitLength_bitlen)
  show "1 \<le> bitLength n"
    using assms bitlen_nonneg[of "n div 2"] compute_bitlen[of n]
    by (simp add: bitLength_bitlen)
qed

lemma ilog2_lower:
  assumes "0 < a"
  shows "2 powi (ilog2 a) \<le> a"
proof (cases "1 \<le> a")
  case True
  have f: "0 < \<lfloor>a\<rfloor>" using True by linarith
  have b: "0 \<le> bitLength \<lfloor>a\<rfloor> - 1" using bitLength_bounds(3)[OF f] by simp
  have "(2::int) ^ nat (bitLength \<lfloor>a\<rfloor> - 1) \<le> \<lfloor>a\<rfloor>" by (rule bitLength_bounds(1)[OF f])
  then have "of_int ((2::int) ^ nat (bitLength \<lfloor>a\<rfloor> - 1)) \<le> (of_int \<lfloor>a\<rfloor> :: rat)"
    by (simp only: of_int_le_iff)
  then have "(2::rat) ^ nat (bitLength \<lfloor>a\<rfloor> - 1) \<le> of_int \<lfloor>a\<rfloor>" by simp
  also have "\<dots> \<le> a" by simp
  finally show ?thesis using True b by (simp add: ilog2_def power_int_nonneg_exp)
next
  case False
  define m where "m = \<lceil>1 / a\<rceil> - 1"
  have inv: "1 < 1 / a" using assms False by simp
  have m0: "0 < m" unfolding m_def using inv by linarith
  have ma: "of_int m < 1 / a" unfolding m_def by linarith
  have "m < 2 ^ nat (bitLength m)" by (rule bitLength_bounds(2)[OF m0])
  then have "m + 1 \<le> 2 ^ nat (bitLength m)" by simp
  then have "of_int (m + 1) \<le> (of_int ((2::int) ^ nat (bitLength m)) :: rat)"
    by (simp only: of_int_le_iff)
  then have le: "of_int m + 1 \<le> (2::rat) ^ nat (bitLength m)" by simp
  have "1 / a \<le> of_int m + 1" unfolding m_def by simp
  with le have "1 / a \<le> (2::rat) ^ nat (bitLength m)" by linarith
  then have "1 / (2::rat) ^ nat (bitLength m) \<le> a"
    using assms by (simp add: field_simps)
  moreover have "2 powi (ilog2 a) = 1 / (2::rat) ^ nat (bitLength m)"
    using False bitLength_bounds(3)[OF m0]
    by (simp add: ilog2_def m_def power_int_minus_divide power_int_nonneg_exp)
  ultimately show ?thesis by simp
qed

lemma ilog2_upper:
  assumes "0 < a"
  shows "a < 2 powi (ilog2 a + 1)"
proof (cases "1 \<le> a")
  case True
  have f: "0 < \<lfloor>a\<rfloor>" using True by linarith
  have b: "1 \<le> bitLength \<lfloor>a\<rfloor>" by (rule bitLength_bounds(3)[OF f])
  have "\<lfloor>a\<rfloor> < 2 ^ nat (bitLength \<lfloor>a\<rfloor>)" by (rule bitLength_bounds(2)[OF f])
  then have "\<lfloor>a\<rfloor> + 1 \<le> 2 ^ nat (bitLength \<lfloor>a\<rfloor>)" by simp
  then have "of_int (\<lfloor>a\<rfloor> + 1) \<le> (of_int ((2::int) ^ nat (bitLength \<lfloor>a\<rfloor>)) :: rat)"
    by (simp only: of_int_le_iff)
  then have "of_int \<lfloor>a\<rfloor> + 1 \<le> (2::rat) ^ nat (bitLength \<lfloor>a\<rfloor>)" by simp
  moreover have "a < of_int \<lfloor>a\<rfloor> + 1" by linarith
  ultimately have "a < (2::rat) ^ nat (bitLength \<lfloor>a\<rfloor>)" by linarith
  then show ?thesis using True b by (simp add: ilog2_def power_int_nonneg_exp)
next
  case False
  define m where "m = \<lceil>1 / a\<rceil> - 1"
  have inv: "1 < 1 / a" using assms False by simp
  have m0: "0 < m" unfolding m_def using inv by linarith
  have ma: "of_int m < 1 / a" unfolding m_def by linarith
  have b: "1 \<le> bitLength m" by (rule bitLength_bounds(3)[OF m0])
  have "2 ^ nat (bitLength m - 1) \<le> m" by (rule bitLength_bounds(1)[OF m0])
  then have "(of_int ((2::int) ^ nat (bitLength m - 1)) :: rat) \<le> of_int m"
    by (simp only: of_int_le_iff)
  then have "(2::rat) ^ nat (bitLength m - 1) \<le> of_int m" by simp
  with ma have lt: "(2::rat) ^ nat (bitLength m - 1) < 1 / a" by linarith
  have "a < 1 / (2::rat) ^ nat (bitLength m - 1)"
    using lt assms by (simp add: field_simps)
  moreover have "2 powi (ilog2 a + 1) = 1 / (2::rat) ^ nat (bitLength m - 1)"
  proof -
    define k where "k = bitLength m - 1"
    have k0: "0 \<le> k" using b by (simp add: k_def)
    have "ilog2 a + 1 = - k" using False by (simp add: ilog2_def m_def k_def)
    moreover have "(2::rat) powi (- k) = 1 / 2 powi k" by (rule power_int_minus_divide)
    moreover have "(2::rat) powi k = 2 ^ nat k" using k0 by (simp add: power_int_nonneg_exp)
    ultimately show ?thesis by (simp add: k_def)
  qed
  ultimately show ?thesis by simp
qed

lemma ilog2_eqI:
  assumes "2 powi e \<le> a" "a < 2 powi (e + 1)"
  shows "ilog2 a = e"
proof -
  have a0: "0 < a"
  proof -
    have "(0::rat) < 2 powi e" by simp
    with assms(1) show ?thesis by linarith
  qed
  note lo = ilog2_lower[OF a0] and hi = ilog2_upper[OF a0]
  have "\<not> ilog2 a < e"
  proof
    assume "ilog2 a < e"
    then have "ilog2 a + 1 \<le> e" by simp
    then have "(2::rat) powi (ilog2 a + 1) \<le> 2 powi e" by (intro power_int_increasing) simp_all
    with hi assms(1) show False by linarith
  qed
  moreover have "\<not> e < ilog2 a"
  proof
    assume "e < ilog2 a"
    then have "e + 1 \<le> ilog2 a" by simp
    then have "(2::rat) powi (e + 1) \<le> 2 powi (ilog2 a)" by (intro power_int_increasing) simp_all
    with lo assms(2) show False by linarith
  qed
  ultimately show ?thesis by linarith
qed

lemma round_half_even_of_int [simp]: "round_half_even (of_int n) = n"
  by (simp add: round_half_even_def)

lemma round_half_even_nonneg: "0 \<le> q \<Longrightarrow> 0 \<le> round_half_even q"
proof -
  assume "0 \<le> q"
  then have "0 \<le> \<lfloor>q\<rfloor>" by simp
  then show ?thesis by (simp add: round_half_even_def Let_def)
qed

lemma round_half_even_le:
  assumes "q \<le> of_int N"
  shows "round_half_even q \<le> N"
proof (cases "q = of_int N")
  case True
  then show ?thesis by simp
next
  case False
  then have "q < of_int N" using assms by simp
  then have "\<lfloor>q\<rfloor> < N" by (simp add: floor_less_iff)
  then show ?thesis by (simp add: round_half_even_def Let_def)
qed

lemma Number_value_cases:
  assumes "v \<noteq> 0"
  obtains e n where
    "e = max (ilog2 \<bar>v\<bar>) (- 1022)"
    "n = round_half_even (\<bar>v\<bar> / 2 powi (e - 52))"
    "0 \<le> n" "n \<le> 2 ^ 53"
    "Number_value v =
       (if (2::rat) ^ 1024 \<le> of_int n * 2 powi (e - 52) then (if v < 0 then NegInf else PosInf)
        else Fin (if v < 0 then - (of_int n * 2 powi (e - 52)) else of_int n * 2 powi (e - 52)))"
proof -
  define e where "e = max (ilog2 \<bar>v\<bar>) (- 1022)"
  define u :: rat where "u = 2 powi (e - 52)"
  define n where "n = round_half_even (\<bar>v\<bar> / u)"
  have a0: "0 < \<bar>v\<bar>" using assms by simp
  have u0: "0 < u" by (simp add: u_def)
  have n0: "0 \<le> n" unfolding n_def using u0 by (intro round_half_even_nonneg) simp
  have "\<bar>v\<bar> < 2 powi (ilog2 \<bar>v\<bar> + 1)" by (rule ilog2_upper[OF a0])
  also have "\<dots> \<le> 2 powi (e + 1)" by (intro power_int_increasing) (simp_all add: e_def)
  also have "\<dots> = 2 powi 53 * u"
  proof -
    have "(2::rat) powi (53 + (e - 52)) = 2 powi 53 * 2 powi (e - 52)"
      by (rule power_int_add) simp
    moreover have "53 + (e - 52) = e + 1" by simp
    ultimately show ?thesis by (simp add: u_def)
  qed
  finally have "\<bar>v\<bar> / u < 2 powi 53" using u0 by (simp add: field_simps)
  then have "\<bar>v\<bar> / u \<le> of_int (2 ^ 53)" by simp
  then have n53: "n \<le> 2 ^ 53" unfolding n_def by (rule round_half_even_le)
  have "Number_value v =
       (if (2::rat) ^ 1024 \<le> of_int n * 2 powi (e - 52) then (if v < 0 then NegInf else PosInf)
        else Fin (if v < 0 then - (of_int n * 2 powi (e - 52)) else of_int n * 2 powi (e - 52)))"
    using assms by (simp add: Number_value_def Let_def e_def n_def u_def)
  then show ?thesis using that[of e n] n0 n53 by (simp add: e_def n_def u_def)
qed

lemma Number_value_nonneg:
  assumes "0 \<le> v"
  shows "Number_value v = PosInf \<or> (\<exists>r. 0 \<le> r \<and> Number_value v = Fin r)"
proof (cases "v = 0")
  case True
  then show ?thesis by (simp add: Number_value_def)
next
  case False
  then obtain e n where n: "0 \<le> n" and
    nv: "Number_value v =
       (if (2::rat) ^ 1024 \<le> of_int n * 2 powi (e - 52) then (if v < 0 then NegInf else PosInf)
        else Fin (if v < 0 then - (of_int n * 2 powi (e - 52)) else of_int n * 2 powi (e - 52)))"
    by (rule Number_value_cases)
  have "(0::rat) \<le> of_int n * 2 powi (e - 52)" using n by simp
  then show ?thesis using assms nv by auto
qed


lemma Number_value_exact:
  assumes v: "v = of_int n * 2 powi k" and n: "\<bar>n\<bar> < 2 ^ 53" and k: "- 1074 \<le> k"
    and fin: "\<bar>v\<bar> < 2 ^ 1024"
  shows "Number_value v = Fin v"
proof (cases "v = 0")
  case True
  then show ?thesis by (simp add: Number_value_def)
next
  case False
  define a where "a = \<bar>v\<bar>"
  define e where "e = max (ilog2 a) (- 1022)"
  define j where "j = k - (e - 52)"
  have a0: "0 < a" using False by (simp add: a_def)
  have a: "a = of_int \<bar>n\<bar> * 2 powi k" by (simp add: a_def v abs_mult)
  have "of_int \<bar>n\<bar> < (of_int (2 ^ 53) :: rat)" using n by (simp only: of_int_less_iff)
  then have "of_int \<bar>n\<bar> * 2 powi k < (2 ^ 53 :: rat) * 2 powi k"
    by (intro mult_strict_right_mono) simp_all
  also have "\<dots> = 2 powi (53 + k)"
  proof -
    have "(2::rat) powi (53 + k) = 2 powi 53 * 2 powi k" by (rule power_int_add) simp
    then show ?thesis by simp
  qed
  finally have lt: "a < 2 powi (53 + k)" by (simp add: a)
  have "\<not> 53 + k \<le> ilog2 a"
  proof
    assume "53 + k \<le> ilog2 a"
    then have "(2::rat) powi (53 + k) \<le> 2 powi (ilog2 a)"
      by (intro power_int_increasing) simp_all
    with ilog2_lower[OF a0] lt show False by linarith
  qed
  then have j0: "0 \<le> j" using k by (simp add: j_def e_def)
  have "(2::rat) powi k = 2 powi (j + (e - 52))" by (simp add: j_def)
  also have "\<dots> = 2 powi j * 2 powi (e - 52)" by (rule power_int_add) simp
  finally have pk: "(2::rat) powi k = 2 ^ nat j * 2 powi (e - 52)"
    using j0 by (simp add: power_int_nonneg_exp)
  have u0: "(2::rat) powi (e - 52) \<noteq> 0" by simp
  have q: "a / 2 powi (e - 52) = of_int (\<bar>n\<bar> * 2 ^ nat j)"
    using u0 by (simp add: a pk)
  have r: "of_int (round_half_even (a / 2 powi (e - 52))) * 2 powi (e - 52) = a"
    unfolding q round_half_even_of_int using u0 by (simp add: a pk)
  have "Number_value v =
      (if 2 ^ 1024 \<le> a then (if v < 0 then NegInf else PosInf)
       else Fin (if v < 0 then - a else a))"
    using False r by (simp add: Number_value_def Let_def a_def[symmetric] e_def[symmetric])
  moreover have "\<not> 2 ^ 1024 \<le> a" using fin by (simp add: a_def)
  moreover have "(if v < 0 then - a else a) = v" by (simp add: a_def)
  ultimately show ?thesis by simp
qed

lemma Number_value_of_int:
  "\<bar>n\<bar> < 2 ^ 53 \<Longrightarrow> Number_value (of_int n) = Fin (of_int n)"
proof -
  assume n: "\<bar>n\<bar> < 2 ^ 53"
  have "\<bar>of_int n :: rat\<bar> = of_int \<bar>n\<bar>" by simp
  also have "\<dots> < of_int (2 ^ 53)" using n by (simp only: of_int_less_iff)
  also have "\<dots> < (2::rat) ^ 1024" by simp
  finally have "\<bar>of_int n :: rat\<bar> < 2 ^ 1024" .
  then show ?thesis using n by (intro Number_value_exact[of _ n 0]) simp_all
qed



lemma floor_numeral_div_rat:
  "\<lfloor>(numeral a :: rat) / numeral b\<rfloor> = numeral a div numeral b"
  using floor_divide_of_int_eq[of "numeral a" "numeral b", where ?'a = rat] by simp

lemma Number_value_eval:
  assumes "2 powi e \<le> \<bar>v\<bar>" "\<bar>v\<bar> < 2 powi (e + 1)" "- 1022 \<le> e"
    and "r = of_int (round_half_even (\<bar>v\<bar> / 2 powi (e - 52))) * 2 powi (e - 52)"
    and "r < 2 ^ 1024"
  shows "Number_value v = Fin (if v < 0 then - r else r)"
proof -
  have "ilog2 \<bar>v\<bar> = e" using assms(1,2) by (rule ilog2_eqI)
  then have m: "max (ilog2 \<bar>v\<bar>) (- 1022) = e" using assms(3) by simp
  have "(0::rat) < 2 powi e" by simp
  with assms(1) have "0 < \<bar>v\<bar>" by linarith
  then have "v \<noteq> 0" by simp
  then obtain e' n where "e' = max (ilog2 \<bar>v\<bar>) (- 1022)"
    "n = round_half_even (\<bar>v\<bar> / 2 powi (e' - 52))"
    "Number_value v =
       (if (2::rat) ^ 1024 \<le> of_int n * 2 powi (e' - 52) then (if v < 0 then NegInf else PosInf)
        else Fin (if v < 0 then - (of_int n * 2 powi (e' - 52)) else of_int n * 2 powi (e' - 52)))"
    by (rule Number_value_cases)
  then have "Number_value v =
       (if (2::rat) ^ 1024 \<le> r then (if v < 0 then NegInf else PosInf)
        else Fin (if v < 0 then - r else r))"
    unfolding m assms(4) by simp
  then show ?thesis using assms(5) by simp
qed


lemma Number_value_numeral:
  "(numeral w :: int) < 2 ^ 53 \<Longrightarrow> Number_value (numeral w) = Fin (numeral w)"
  using Number_value_of_int[of "numeral w"] by simp

lemma Number_value_neg_numeral:
  "(numeral w :: int) < 2 ^ 53 \<Longrightarrow> Number_value (- numeral w) = Fin (- numeral w)"
  using Number_value_of_int[of "- numeral w"] by simp


text \<open>\<open>0.1 + 0.2\<close> is \<open>0.30000000000000004\<close>: the doubles of the three decimals.\<close>

lemma js_add_example:
  "js_add (Fin (3602879701896397 / 36028797018963968))
          (Fin (3602879701896397 / 18014398509481984))
   = Fin (1351079888211149 / 4503599627370496)"
  using Number_value_eval[of "- 2" "10808639105689191 / 36028797018963968"
      "1351079888211149 / 4503599627370496"]
  by (simp add: round_half_even_def Let_def floor_numeral_div_rat)

text \<open>
  A tie goes to the even significand: \<open>2^53 + 1\<close> lies halfway between the doubles
  \<open>2^53\<close> and \<open>2^53 + 2\<close>, and its Number value is \<open>2^53\<close>.
\<close>

lemma round_half_even_tie:
  assumes "even f"
  shows "round_half_even (of_int f + 1 / 2) = f"
proof -
  have fl: "\<lfloor>of_int f + 1 / 2 :: rat\<rfloor> = f" by (simp add: floor_eq_iff)
  show ?thesis unfolding round_half_even_def Let_def fl using assms by simp
qed

lemma Number_value_tie: "Number_value 9007199254740993 = Fin 9007199254740992"
proof -
  have q: "(9007199254740993 / 2 :: rat) = of_int 4503599627370496 + 1 / 2" by simp
  have e: "even (4503599627370496::int)" by simp
  have r: "round_half_even (9007199254740993 / 2) = 4503599627370496"
    using round_half_even_tie[OF e] unfolding q .
  have "Number_value 9007199254740993 =
      Fin (if (9007199254740993::rat) < 0 then - 9007199254740992 else 9007199254740992)"
    by (rule Number_value_eval[of 53]) (simp_all add: power_int_def r)
  then show ?thesis by simp
qed

section \<open>Adding entries\<close>

lemmas parse_defs = StringToNumber_def trim_def str_def isWhiteSpace_def
  parseUnsignedDecimal_def parseNonDecimal_def parseDigits_def parseExponent_def
  isDigit_def digitValue_def Let_def

lemma amount_check_iff: "(\<not> ToBoolean a \<or> js_le a (Fin 0)) \<longleftrightarrow> \<not> js_lt (Fin 0) a"
  by (cases a) (auto simp: ToBoolean_def)

lemma addEntry_invalid:
  "\<not> js_lt (Fin 0) (StringToNumber amountInput) \<Longrightarrow>
   addEntry uuid isoNow ty amountInput noteInput st = st\<lparr>validation := Some InvalidAmount\<rparr>"
  using amount_check_iff[of "StringToNumber amountInput"]
  by (simp add: addEntry_def Let_def)

lemma addEntry_valid_amount:
  "js_lt (Fin 0) (StringToNumber amountInput) \<Longrightarrow>
   validation (addEntry uuid isoNow ty amountInput noteInput st) \<noteq> Some InvalidAmount"
  using amount_check_iff[of "StringToNumber amountInput"]
  by (simp add: addEntry_def Let_def)

text \<open>
  Claim C2, amended. \<open>addEntry\<close> reports \<open>InvalidAmount\<close> exactly when the number
  \<open>Number(amountInput)\<close> is not greater than zero: \<open>NaN\<close> (text that is no number), zero
  (also the empty input), a negative number or \<open>-Infinity\<close>; the entries are then
  unchanged. An input that converts to a number greater than zero, \<open>+Infinity\<close>
  included, never gets \<open>InvalidAmount\<close>.
\<close>

theorem addEntry_InvalidAmount_iff:
  "(validation (addEntry uuid isoNow ty amountInput noteInput st) = Some InvalidAmount
      \<longleftrightarrow> \<not> js_lt (Fin 0) (StringToNumber amountInput)) \<and>
   (\<not> js_lt (Fin 0) (StringToNumber amountInput) \<longrightarrow>
      entries (addEntry uuid isoNow ty amountInput noteInput st) = entries st)"
proof (cases "js_lt (Fin 0) (StringToNumber amountInput)")
  case True
  then show ?thesis using addEntry_valid_amount[OF True] by simp
next
  case False
  then show ?thesis by (simp add: addEntry_invalid[OF False])
qed

text \<open>
  The input \<open>-5\<close>.
\<close>

theorem addEntry_InvalidAmount_witness:
  "\<not> js_lt (Fin 0) (StringToNumber (str ''-5'')) \<and>
   validation (addEntry (str ''id-1'') (str ''2025-02-10T10:00:00.000Z'') essential
      (str ''-5'') (str ''milk'') initialState) = Some InvalidAmount \<and>
   entries (addEntry (str ''id-1'') (str ''2025-02-10T10:00:00.000Z'') essential
      (str ''-5'') (str ''milk'') initialState) = []"
proof -
  have n: "StringToNumber (str ''-5'') = Fin (- 5)"
    by (simp add: parse_defs Number_value_neg_numeral)
  have h: "\<not> js_lt (Fin 0) (StringToNumber (str ''-5''))"
    unfolding n by simp
  show ?thesis
    using h addEntry_InvalidAmount_iff[of "str ''id-1''" "str ''2025-02-10T10:00:00.000Z''"
        essential "str ''-5''" "str ''milk''" initialState]
    by (simp add: initialState_def)
qed

text \<open>
  The claim as written also wants \<open>InvalidAmount\<close> for an infinite amount. The input
  \<open>Infinity\<close> converts to \<open>+Infinity\<close>, passes the check, and an entry with that amount
  is added.
\<close>

theorem addEntry_Infinity_counterexample:
  "StringToNumber (str ''Infinity'') = PosInf \<and>
   validation (addEntry (str ''id-1'') (str ''2025-02-10T10:00:00.000Z'') essential
      (str ''Infinity'') (str ''gold'') initialState) = None \<and>
   map amount (entries (addEntry (str ''id-1'') (str ''2025-02-10T10:00:00.000Z'') essential
      (str ''Infinity'') (str ''gold'') initialState)) = [PosInf]"
proof -
  have n: "StringToNumber (str ''Infinity'') = PosInf"
    by (simp add: StringToNumber_def trim_def str_def isWhiteSpace_def)
  have t: "trim (str ''gold'') \<noteq> []"
    by (simp add: trim_def str_def isWhiteSpace_def)
  show ?thesis
    using t by (simp add: addEntry_def n Let_def ToBoolean_def initialState_def)
qed


lemma toFixed2_decimal_nonneg: "0 \<le> x \<Longrightarrow> 0 \<le> toFixed2_decimal x"
  by (simp add: toFixed2_decimal_def)



text \<open>
  The amount \<open>1.005\<close> with the note \<open>" milk "\<close>. The double of \<open>1.005\<close> lies just below
  it, so the two decimals are \<open>1.00\<close>.
\<close>

lemma StringToNumber_1_005:
  "StringToNumber (str ''1.005'') = Fin (1131529406376837 / 1125899906842624)"
proof -
  have "Number_value (201 / 200) = Fin (1131529406376837 / 1125899906842624)"
    using Number_value_eval[of 0 "201 / 200" "1131529406376837 / 1125899906842624"]
    by (simp add: round_half_even_def Let_def floor_numeral_div_rat)
  then show ?thesis by (simp add: parse_defs)
qed


text \<open>The entry stored for the amount \<open>1.005\<close>: its amount is 1.\<close>

lemma addEntry_example:
  "entries (addEntry (str ''id-1'') (str ''2025-02-10T10:00:00.000Z'') essential
      (str ''1.005'') (str '' milk '') initialState) =
   [\<lparr> id' = str ''id-1'', type' = essential, amount = Fin 1, note' = str ''milk'',
      createdAt = str ''2025-02-10T10:00:00.000Z'' \<rparr>]"
proof -
  have t: "trim (str '' milk '') = str ''milk''"
    by (simp add: trim_def str_def isWhiteSpace_def)
  have f: "toFixed2_decimal (1131529406376837 / 1125899906842624) = 1"
    by (simp add: toFixed2_decimal_def floor_eq_iff)
  have one: "Number_value 1 = Fin 1" using Number_value_of_int[of 1] by simp
  show ?thesis
    by (simp add: addEntry_def StringToNumber_1_005 t f one Let_def ToBoolean_def initialState_def)
      (simp add: str_def)
qed

text \<open>An integer literal beyond \<open>2^53\<close> is rounded when it is read.\<close>

lemma StringToNumber_tie:
  "StringToNumber (str ''9007199254740993'') = Fin 9007199254740992"
  using Number_value_tie by (simp add: parse_defs)

text \<open>
  Claim C7. When the amount input converts to a positive finite number and the note is
  empty after trimming, \<open>addEntry\<close> reports \<open>MissingNote\<close> and leaves the entries (and the
  budget) unchanged.
\<close>

theorem addEntry_MissingNote:
  assumes "StringToNumber amountInput = Fin x" "0 < x" "trim noteInput = []"
  shows "validation (addEntry uuid isoNow ty amountInput noteInput st) = Some MissingNote \<and>
         entries (addEntry uuid isoNow ty amountInput noteInput st) = entries st \<and>
         budget (addEntry uuid isoNow ty amountInput noteInput st) = budget st"
  using assms by (simp add: addEntry_def Let_def ToBoolean_def)

text \<open>
  The amount \<open>25\<close> with a note of three spaces.
\<close>

theorem addEntry_MissingNote_witness:
  "StringToNumber (str ''25'') = Fin 25 \<and> trim (str ''   '') = [] \<and>
   validation (addEntry (str ''id-1'') (str ''2025-02-10T10:00:00.000Z'') skip
      (str ''25'') (str ''   '') initialState) = Some MissingNote \<and>
   entries (addEntry (str ''id-1'') (str ''2025-02-10T10:00:00.000Z'') skip
      (str ''25'') (str ''   '') initialState) = []"
proof -
  have n: "StringToNumber (str ''25'') = Fin 25"
    by (simp add: parse_defs Number_value_numeral)
  have p: "(0::rat) < 25" by simp
  have t: "trim (str ''   '') = []"
    by (simp add: trim_def str_def isWhiteSpace_def)
  show ?thesis
    using n t addEntry_MissingNote[OF n p t, of "str ''id-1''" "str ''2025-02-10T10:00:00.000Z''"
        skip initialState]
    by (simp add: initialState_def)
qed

section \<open>Reset and budget\<close>

text \<open>
  Claim C9. A confirmed \<open>resetMonth\<close> empties the entries; confirmed or not, it leaves
  the budget as it was, in the state and in its storage slot.
\<close>

theorem resetMonth_frame:
  "entries (fst (resetMonth True JSON_stringify setItemThrows (st, store))) = [] \<and>
   budget (fst (resetMonth confirmed JSON_stringify setItemThrows (st, store))) = budget st \<and>
   snd (resetMonth confirmed JSON_stringify setItemThrows (st, store)) STORAGE_KEYS_budget
     = store STORAGE_KEYS_budget"
  by (simp add: resetMonth_def saveEntries_def STORAGE_KEYS_budget_def STORAGE_KEYS_entries_def)

text \<open>
  Claim C3, amended. \<open>setBudget\<close> replaces the budget with the amount it is given,
  whatever the amount, inside or outside 1500 to 12000; it reports no error (\<open>validation\<close>
  is untouched) and leaves the entries alone.
\<close>

theorem setBudget_replaces:
  "budget (setBudget v st) = v \<and> entries (setBudget v st) = entries st \<and>
   validation (setBudget v st) = validation st"
  by (simp add: setBudget_def)

text \<open>
  The claim as written wants an amount outside the range refused and the budget
  unchanged. The amount 100 is below 1500, and it becomes the budget.
\<close>

theorem setBudget_out_of_range_counterexample:
  "js_lt (Fin 100) (Fin 1500) \<and>
   budget (setBudget (Fin 100) initialState) = Fin 100 \<and>
   budget (setBudget (Fin 100) initialState) \<noteq> budget initialState \<and>
   validation (setBudget (Fin 100) initialState) = None"
  by (simp add: setBudget_def initialState_def)

text \<open>
  The two callers pass on what they are given: the slider handler the number of its
  text, the mount effect what \<open>loadBudget\<close> read (here the stored text \<open>-7\<close>).
\<close>

lemma loadBudget_negative:
  "budget (setBudget (loadBudget True (Stored (str ''-7''))) initialState) = Fin (- 7)"
  by (simp add: setBudget_def loadBudget_def parse_defs Number_value_neg_numeral)

lemma budgetSliderChange_any:
  "budget (budgetSliderChange target_value st) = StringToNumber target_value"
  by (simp add: budgetSliderChange_def setBudget_def)

section \<open>Loading\<close>

text \<open>
  With no window, a throwing or empty slot, or an empty text, both loaders return their
  default; \<open>loadEntries\<close> also does when \<open>JSON.parse\<close> throws. Whatever else
  \<open>JSON.parse\<close> returns, array or not, \<open>loadEntries\<close> returns as it is.
\<close>

lemma loadBudget_default:
  "loadBudget False got = Fin 4500"
  "loadBudget True Throws = Fin 4500"
  "loadBudget True Null = Fin 4500"
  "loadBudget True (Stored []) = Fin 4500"
  by (simp_all add: loadBudget_def)

lemma loadEntries_default:
  "loadEntries False JSON_parse got = JArray []"
  "loadEntries True JSON_parse Throws = JArray []"
  "loadEntries True JSON_parse Null = JArray []"
  "loadEntries True JSON_parse (Stored []) = JArray []"
  "JSON_parse s = None \<Longrightarrow> loadEntries True JSON_parse (Stored s) = JArray []"
  by (simp_all add: loadEntries_def)

lemma loadEntries_unchecked:
  "s \<noteq> [] \<Longrightarrow> JSON_parse s = Some v \<Longrightarrow> loadEntries True JSON_parse (Stored s) = v"
  by (simp add: loadEntries_def)

text \<open>
  Claim C4 says that a stored budget text that does not decode to a number yields 4500.
  \<open>Number\<close> does not throw on such a text, so the \<open>catch\<close> that returns 4500 is not
  reached: for the stored text \<open>abc\<close>, \<open>loadBudget\<close> returns \<open>NaN\<close>.
\<close>

theorem loadBudget_malformed:
  "loadBudget True (Stored (str ''abc'')) = NaN \<and>
   loadBudget True (Stored (str ''abc'')) \<noteq> Fin 4500"
  by (simp add: loadBudget_def parse_defs)

section \<open>Saved amount\<close>

lemma js_add_nonneg: "js_le (Fin 0) a \<Longrightarrow> js_le (Fin 0) b \<Longrightarrow> js_le (Fin 0) (js_add a b)"
proof (cases a; cases b)
  fix x y
  assume "a = Fin x" "b = Fin y" "js_le (Fin 0) a" "js_le (Fin 0) b"
  then have "0 \<le> x + y" by simp
  from Number_value_nonneg[OF this] show ?thesis
    using \<open>a = Fin x\<close> \<open>b = Fin y\<close> by auto
qed simp_all

lemma foldl_skip_nonneg:
  "\<forall>e\<in>set es. js_le (Fin 0) (amount e) \<Longrightarrow> js_le (Fin 0) acc \<Longrightarrow>
   js_le (Fin 0) (foldl (\<lambda>sum entry. js_add sum (amount entry)) acc es)"
proof (induction es arbitrary: acc)
  case Nil
  then show ?case by simp
next
  case (Cons e es)
  have "js_le (Fin 0) (js_add acc (amount e))"
    using Cons.prems by (simp add: js_add_nonneg)
  then show ?case using Cons.IH Cons.prems(1) by simp
qed

lemma Math_max_zero: "Math_max z (Fin 0) = NaN \<or> js_le (Fin 0) (Math_max z (Fin 0))"
  by (cases z) (simp_all add: Math_max_def)

lemma js_add_not_negative:
  assumes "m = NaN \<or> js_le (Fin 0) m" "js_le (Fin 0) s"
  shows "\<not> js_lt (js_add m s) (Fin 0)"
proof (cases "m = NaN")
  case True
  then show ?thesis by simp
next
  case False
  then have "js_le (Fin 0) (js_add m s)" using assms by (simp add: js_add_nonneg)
  then show ?thesis by (cases "js_add m s") simp_all
qed

lemma totals_fields:
  "essentialTotal (totals es bud m) =
     foldl (\<lambda>sum entry. js_add sum (amount entry)) (Fin 0)
       (filter (\<lambda>entry. type' entry = essential) es)"
  "skipTotal (totals es bud m) =
     foldl (\<lambda>sum entry. js_add sum (amount entry)) (Fin 0)
       (filter (\<lambda>entry. type' entry = skip) es)"
  "savedAmount (totals es bud m) =
     js_add (Math_max (js_sub bud (essentialTotal (totals es bud m))) (Fin 0))
       (skipTotal (totals es bud m))"
  by (simp_all add: totals_def Let_def)

text \<open>
  \<open>addEntry\<close> keeps a ledger free of negative amounts: what it stores is the rounding of
  a number greater than zero.
\<close>

lemma Number_toFixed2_nonneg: "js_lt (Fin 0) a \<Longrightarrow> js_le (Fin 0) (Number_toFixed2 a)"
proof (cases a)
  case (Fin x)
  assume "js_lt (Fin 0) a"
  then have x: "0 < x" using Fin by simp
  then have "0 \<le> toFixed2_decimal \<bar>x\<bar>" by (intro toFixed2_decimal_nonneg) simp
  from Number_value_nonneg[OF this] show ?thesis
    using Fin x by (auto simp: Let_def)
qed simp_all

lemma addEntry_amounts_nonneg:
  assumes "\<forall>e\<in>set (entries st). js_le (Fin 0) (amount e)"
  shows "\<forall>e\<in>set (entries (addEntry uuid isoNow ty amountInput noteInput st)).
           js_le (Fin 0) (amount e)"
proof (cases "js_lt (Fin 0) (StringToNumber amountInput)")
  case True
  then have ok: "\<not> (\<not> ToBoolean (StringToNumber amountInput) \<or>
      js_le (StringToNumber amountInput) (Fin 0))"
    using amount_check_iff[of "StringToNumber amountInput"] by simp
  show ?thesis
    using assms ok Number_toFixed2_nonneg[OF True]
    by (auto simp: addEntry_def Let_def)
next
  case False
  then show ?thesis using assms by (simp add: addEntry_invalid)
qed

text \<open>
  Claim C5, amended. \<open>savedAmount\<close> is \<open>Math.max(budget - essentialTotal, 0) + skipTotal\<close>,
  and it is never negative when no skip entry has a negative amount, also when the
  essentials exceed the budget.
\<close>

theorem savedAmount_formula:
  "savedAmount (totals es bud m) =
     js_add (Math_max (js_sub bud (essentialTotal (totals es bud m))) (Fin 0))
       (skipTotal (totals es bud m)) \<and>
   ((\<forall>e\<in>set es. type' e = skip \<longrightarrow> js_le (Fin 0) (amount e)) \<longrightarrow>
      \<not> js_lt (savedAmount (totals es bud m)) (Fin 0))"
proof (intro conjI impI)
  show "savedAmount (totals es bud m) =
     js_add (Math_max (js_sub bud (essentialTotal (totals es bud m))) (Fin 0))
       (skipTotal (totals es bud m))"
    by (rule totals_fields(3))
next
  assume inv: "\<forall>e\<in>set es. type' e = skip \<longrightarrow> js_le (Fin 0) (amount e)"
  have "js_le (Fin 0) (skipTotal (totals es bud m))"
    unfolding totals_fields(2) using inv by (intro foldl_skip_nonneg) simp_all
  then show "\<not> js_lt (savedAmount (totals es bud m)) (Fin 0)"
    unfolding totals_fields(3) by (intro js_add_not_negative Math_max_zero)
qed

text \<open>
  Budget 1500, essentials 2000, one skip of 300: the saved amount is 300.
\<close>

lemma savedAmount_example:
  "savedAmount (totals exampleEntries (Fin 1500) exampleMeta) = Fin 300"
  by (simp add: totals_def exampleEntries_def Let_def js_sub_def Math_max_def
      Number_value_numeral Number_value_neg_numeral)

theorem savedAmount_formula_witness:
  "savedAmount (totals exampleEntries (Fin 1500) exampleMeta) = Fin 300 \<and>
   \<not> js_lt (savedAmount (totals exampleEntries (Fin 1500) exampleMeta)) (Fin 0)"
proof -
  have inv: "\<forall>e\<in>set exampleEntries. type' e = skip \<longrightarrow> js_le (Fin 0) (amount e)"
    by (simp add: exampleEntries_def)
  from savedAmount_formula[of exampleEntries "Fin 1500" exampleMeta] inv
  have "\<not> js_lt (savedAmount (totals exampleEntries (Fin 1500) exampleMeta)) (Fin 0)"
    by blast
  with savedAmount_example show ?thesis by (intro conjI)
qed

text \<open>
  The claim as written is for every ledger. A ledger read from storage is not checked:
  with a skip entry of amount -3600 beside essentials of 2000 and a budget of 1500, the
  saved amount is -3600.
\<close>

theorem savedAmount_negative_counterexample:
  "savedAmount (totals loadedEntries (Fin 1500) exampleMeta) = Fin (- 3600) \<and>
   js_lt (savedAmount (totals loadedEntries (Fin 1500) exampleMeta)) (Fin 0)"
  by (simp add: totals_def loadedEntries_def Let_def js_sub_def Math_max_def
      Number_value_numeral Number_value_neg_numeral)

end
